theory Spec2Isabelle
  imports Main "HOL-Library.Word"
begin

unbundle bit_operations_syntax

section \<open>Machine types of WheelFactorization.h\<close>

text \<open>
  The header computes with fixed-width unsigned integers, all of which wrap around.
  \<open>int8_t\<close> is an 8-bit word read with \<^const>\<open>sint\<close>.
\<close>

type_synonym uint8_t = "8 word"
type_synonym int8_t = "8 word"
type_synonym uint32_t = "32 word"
type_synonym uint64_t = "64 word"

text \<open>
  Modelled from the spec: \<open>uint_t\<close> is declared in config.h, which is not part of the
  sources at hand. The specification gives the sieving prime 32 bits, the header casts
  every stored \<open>uint_t\<close> to \<open>uint32_t\<close>, shifts a \<open>uint_t\<close> by 23 to fill a 32-bit word
  and takes \<open>UINT32_MAX\<close> as the largest prime: \<open>uint_t\<close> is a 32-bit word.
\<close>

type_synonym uint_t = "32 word"

text \<open>
  What can go wrong while the code runs: a failed \<open>assert\<close>, an access outside an
  array, a division by zero, and the \<open>primesieve_error\<close> exception of the constructor
  (its message is the text and the number that \<open>toString\<close> appends to it).
\<close>

datatype fault =
    AssertionFailed
  | OutOfBounds
  | DivisionByZero
  | primesieve_error string uint_t

section \<open>Wheel tables\<close>

text \<open>
  The fields of the two table entries carry a prefix (\<open>wi\<close> for WheelInit, \<open>we\<close> for
  WheelElement): both structs have a field \<open>nextMultipleFactor\<close>, and \<open>wheelIndex\<close> and
  \<open>unsetBit\<close> are also a parameter and a function of the engine.
\<close>

record WheelInit =
  wiNextMultipleFactor :: uint8_t
  wiWheelIndex :: uint8_t

record WheelElement =
  weUnsetBit :: uint8_t
  weNextMultipleFactor :: uint8_t
  weCorrect :: uint8_t
  weNext :: int8_t

section \<open>WheelPrime\<close>

text \<open>
  A name cannot end in an underscore here, so the private members \<open>indexes_\<close> and
  \<open>sievingPrime_\<close> become \<open>wpIndexes\<close> and \<open>wpSievingPrime\<close>.
\<close>

record WheelPrime =
  wpIndexes :: uint32_t
  wpSievingPrime :: uint32_t

definition getMaxSieveSize :: uint_t where
  "getMaxSieveSize = push_bit 23 1"

text \<open>\<open>set(multipleIndex, wheelIndex)\<close>: both indexes packed into the one word \<open>indexes_\<close>.\<close>

definition set2 :: "uint_t \<Rightarrow> uint_t \<Rightarrow> WheelPrime \<Rightarrow> fault + WheelPrime" where
  "set2 multipleIndex wheelIndex wp =
     (if \<not> multipleIndex < push_bit 23 1 then Inl AssertionFailed
      else if \<not> wheelIndex < push_bit 9 1 then Inl AssertionFailed
      else Inr (wp\<lparr>wpIndexes := multipleIndex OR push_bit 23 wheelIndex\<rparr>))"

text \<open>\<open>set(sievingPrime, multipleIndex, wheelIndex)\<close>.\<close>

definition set3 :: "uint_t \<Rightarrow> uint_t \<Rightarrow> uint_t \<Rightarrow> WheelPrime \<Rightarrow> fault + WheelPrime" where
  "set3 sievingPrime multipleIndex wheelIndex wp =
     (case set2 multipleIndex wheelIndex wp of
        Inl f \<Rightarrow> Inl f
      | Inr wp' \<Rightarrow> Inr (wp'\<lparr>wpSievingPrime := sievingPrime\<rparr>))"

definition setMultipleIndex :: "uint_t \<Rightarrow> WheelPrime \<Rightarrow> fault + WheelPrime" where
  "setMultipleIndex multipleIndex wp =
     (if \<not> multipleIndex < push_bit 23 1 then Inl AssertionFailed
      else Inr (wp\<lparr>wpIndexes := wpIndexes wp OR multipleIndex\<rparr>))"

definition setWheelIndex :: "uint_t \<Rightarrow> WheelPrime \<Rightarrow> fault + WheelPrime" where
  "setWheelIndex wheelIndex wp =
     (if \<not> wheelIndex < push_bit 9 1 then Inl AssertionFailed
      else Inr (wp\<lparr>wpIndexes := push_bit 23 wheelIndex\<rparr>))"

definition getSievingPrime :: "WheelPrime \<Rightarrow> uint_t" where
  "getSievingPrime wp = wpSievingPrime wp"

definition getMultipleIndex :: "WheelPrime \<Rightarrow> uint_t" where
  "getMultipleIndex wp = wpIndexes wp AND (push_bit 23 1 - 1)"

definition getWheelIndex :: "WheelPrime \<Rightarrow> uint_t" where
  "getWheelIndex wp = drop_bit 23 (wpIndexes wp)"

section \<open>Bucket\<close>

text \<open>
  A bucket is an array of \<open>config::BUCKETSIZE\<close> WheelPrime slots, the cursor \<open>current_\<close>
  (a pointer into the array, here the index of the slot it points to) and the link
  \<open>next_\<close> (a pointer to another bucket or NULL, here an optional address).
  \<open>BUCKETSIZE\<close> is a constant of config.h, which is not part of the sources at hand: it
  is taken as the length of the array.
\<close>

record Bucket =
  bkCurrent :: nat
  bkNext :: "nat option"
  bkWheelPrimes :: "WheelPrime list"

definition BUCKETSIZE :: "Bucket \<Rightarrow> nat" where
  "BUCKETSIZE b = length (bkWheelPrimes b)"

text \<open>\<open>last()\<close>: the address of the slot \<open>BUCKETSIZE - 1\<close>.\<close>

definition bkLast :: "Bucket \<Rightarrow> nat" where
  "bkLast b = BUCKETSIZE b - 1"

text \<open>
  \<open>store\<close> takes the slot under the cursor, moves the cursor on, writes the slot and
  reports whether the slot was another one than the last. Writing through a cursor
  that has left the array is an access out of bounds.
\<close>

definition store :: "uint_t \<Rightarrow> uint_t \<Rightarrow> uint_t \<Rightarrow> Bucket \<Rightarrow> fault + (bool \<times> Bucket)" where
  "store sievingPrime multipleIndex wheelIndex b =
     (let wPrime = bkCurrent b;
          b = b\<lparr>bkCurrent := bkCurrent b + 1\<rparr>
      in if \<not> wPrime < BUCKETSIZE b then Inl OutOfBounds
         else case set3 sievingPrime multipleIndex wheelIndex (bkWheelPrimes b ! wPrime) of
                Inl f \<Rightarrow> Inl f
              | Inr wp \<Rightarrow>
                  Inr (wPrime \<noteq> bkLast b, b\<lparr>bkWheelPrimes := (bkWheelPrimes b)[wPrime := wp]\<rparr>))"

section \<open>WheelFactorization\<close>

text \<open>
  The template parameters \<open>MODULO\<close>, \<open>SIZE\<close>, \<open>INIT\<close> and \<open>WHEEL\<close> are parameters of the
  functions that use them. The tables themselves (wheel30Init, wheel210Init, wheel30,
  wheel210) are defined in WheelFactorization.cpp, which is not part of the sources at
  hand, so \<open>INIT\<close> and \<open>WHEEL\<close> range over all tables. The only data member is \<open>stop_\<close>.
\<close>

record WheelFactorization =
  wfStop :: uint64_t

definition getMaxFactor :: "WheelElement list \<Rightarrow> uint_t" where
  "getMaxFactor WHEEL = ucast (weNextMultipleFactor (WHEEL ! 0))"

definition getMaxStop :: "WheelElement list \<Rightarrow> uint64_t" where
  "getMaxStop WHEEL =
     (let maxPrime = (ucast (- 1 :: uint32_t) :: uint64_t)
      in (- 1) - maxPrime * ucast (getMaxFactor WHEEL))"

text \<open>The constructor: it throws \<open>primesieve_error\<close> or yields the engine.\<close>

definition WheelFactorization_new ::
  "WheelElement list \<Rightarrow> uint64_t \<Rightarrow> uint_t \<Rightarrow> fault + WheelFactorization" where
  "WheelFactorization_new WHEEL stop sieveSize =
     (let maxSieveSize = getMaxSieveSize
      in if sieveSize > maxSieveSize
         then Inl (primesieve_error ''WheelFactorization: sieveSize must be <= '' maxSieveSize)
         else if stop > getMaxStop WHEEL
         then Inl (primesieve_error ''WheelFactorization: stop must be <= 2^64 - 2^32 * ''
                     (getMaxFactor WHEEL))
         else Inr \<lparr>wfStop = stop\<rparr>)"

text \<open>The static table \<open>wheelOffsets_\<close>, 30 entries.\<close>

definition wheelOffsets :: "uint_t \<Rightarrow> uint_t list" where
  "wheelOffsets SIZE =
     [0xFF, 7 * SIZE, 0xFF, 0xFF, 0xFF, 0xFF,
      0xFF, 0 * SIZE, 0xFF, 0xFF, 0xFF, 1 * SIZE,
      0xFF, 2 * SIZE, 0xFF, 0xFF, 0xFF, 3 * SIZE,
      0xFF, 4 * SIZE, 0xFF, 0xFF, 0xFF, 5 * SIZE,
      0xFF, 0xFF, 0xFF, 0xFF, 0xFF, 6 * SIZE]"

text \<open>
  Modelled from the spec: \<open>isquare\<close> is defined in imath.h, which is not part of the
  sources at hand; the spec reads \<open>isquare<uint64_t>(prime)\<close> as the square of the prime,
  here computed in 64 bits.
\<close>

definition isquare :: "uint64_t \<Rightarrow> uint64_t" where
  "isquare x = x * x"

text \<open>
  \<open>add(prime, segmentLow)\<close>. The pure virtual \<open>store\<close> is the parameter \<open>sink\<close>, which
  takes the three arguments of the call and the state of whatever stores the sieving
  primes. A \<open>return\<close> before the call leaves that state as it is. Dividing by a zero
  prime or by a zero modulus and reading \<open>INIT\<close> beyond its end are faults of the code.
\<close>

definition add ::
  "uint_t \<Rightarrow> uint_t \<Rightarrow> WheelInit list \<Rightarrow> WheelFactorization \<Rightarrow>
   (uint_t \<Rightarrow> uint_t \<Rightarrow> uint_t \<Rightarrow> 's \<Rightarrow> 's) \<Rightarrow> uint_t \<Rightarrow> uint64_t \<Rightarrow> 's \<Rightarrow> fault + 's" where
  "add MODULO SIZE INIT eng sink prime segmentLow st =
     (let segmentLow = segmentLow + 6
      in if prime = 0 then Inl DivisionByZero
         else
           let quotient = segmentLow div ucast prime + 1;
               multiple = ucast prime * quotient
           in if multiple > wfStop eng then Inr st
              else
                let square = isquare (ucast prime);
                    (multiple, quotient) =
                      (if multiple < square then (square, ucast prime) else (multiple, quotient))
                in if MODULO = 0 then Inl DivisionByZero
                   else
                     let r = unat (quotient mod ucast MODULO)
                     in if \<not> r < length INIT then Inl OutOfBounds
                        else
                          let multiple =
                                multiple + ucast prime * ucast (wiNextMultipleFactor (INIT ! r))
                          in if multiple > wfStop eng then Inr st
                             else
                               let multipleIndex = ucast ((multiple - segmentLow) div 30);
                                   wheelIndex = wheelOffsets SIZE ! unat (prime mod 30)
                                                + ucast (wiWheelIndex (INIT ! r))
                               in Inr (sink prime multipleIndex wheelIndex st))"

text \<open>
  \<open>unsetBit(sieve, sievingPrime, multipleIndex, wheelIndex)\<close>. The two indexes are passed
  by pointer and updated in place: the function returns the sieve and the two indexes
  as it leaves them. The factor is promoted and multiplied in \<open>uint_t\<close>; the signed
  \<open>next\<close> is sign-extended before it is added. Reading \<open>WHEEL\<close> or writing \<open>sieve\<close>
  outside the array is a fault.
\<close>

definition unsetBit ::
  "WheelElement list \<Rightarrow> uint8_t list \<Rightarrow> uint_t \<Rightarrow> uint_t \<Rightarrow> uint_t \<Rightarrow>
   fault + (uint8_t list \<times> uint_t \<times> uint_t)" where
  "unsetBit WHEEL sieve sievingPrime multipleIndex wheelIndex =
     (if \<not> unat wheelIndex < length WHEEL \<or> \<not> unat multipleIndex < length sieve
      then Inl OutOfBounds
      else
        let e = WHEEL ! unat wheelIndex;
            sieve = sieve[unat multipleIndex := sieve ! unat multipleIndex AND weUnsetBit e];
            multipleIndex = multipleIndex + ucast (weNextMultipleFactor e) * sievingPrime;
            multipleIndex = multipleIndex + ucast (weCorrect e);
            wheelIndex = wheelIndex + scast (weNext e)
        in Inr (sieve, multipleIndex, wheelIndex))"

subsection \<open>The values of \<open>add\<close> at its program points\<close>

text \<open>
  The variables of \<open>add\<close> after each of its assignments, as functions of the arguments:
  \<open>quotient\<close> and \<open>multiple\<close> after the first two assignments (0), after the comparison
  with the square (1), \<open>multiple\<close> after the wheel correction (2), the entry of \<open>INIT\<close>
  that is read, and the two indexes handed to \<open>store\<close>.
\<close>

definition add_quotient0 :: "uint_t \<Rightarrow> uint64_t \<Rightarrow> uint64_t" where
  "add_quotient0 prime segmentLow = (segmentLow + 6) div ucast prime + 1"

definition add_multiple0 :: "uint_t \<Rightarrow> uint64_t \<Rightarrow> uint64_t" where
  "add_multiple0 prime segmentLow = ucast prime * add_quotient0 prime segmentLow"

definition add_quotient1 :: "uint_t \<Rightarrow> uint64_t \<Rightarrow> uint64_t" where
  "add_quotient1 prime segmentLow =
     (if add_multiple0 prime segmentLow < isquare (ucast prime) then ucast prime
      else add_quotient0 prime segmentLow)"

definition add_multiple1 :: "uint_t \<Rightarrow> uint64_t \<Rightarrow> uint64_t" where
  "add_multiple1 prime segmentLow =
     (if add_multiple0 prime segmentLow < isquare (ucast prime) then isquare (ucast prime)
      else add_multiple0 prime segmentLow)"

definition add_entry :: "uint_t \<Rightarrow> WheelInit list \<Rightarrow> uint_t \<Rightarrow> uint64_t \<Rightarrow> WheelInit" where
  "add_entry MODULO INIT prime segmentLow =
     INIT ! unat (add_quotient1 prime segmentLow mod ucast MODULO)"

definition add_multiple2 :: "uint_t \<Rightarrow> WheelInit list \<Rightarrow> uint_t \<Rightarrow> uint64_t \<Rightarrow> uint64_t" where
  "add_multiple2 MODULO INIT prime segmentLow =
     add_multiple1 prime segmentLow
     + ucast prime * ucast (wiNextMultipleFactor (add_entry MODULO INIT prime segmentLow))"

definition add_multipleIndex :: "uint_t \<Rightarrow> WheelInit list \<Rightarrow> uint_t \<Rightarrow> uint64_t \<Rightarrow> uint_t" where
  "add_multipleIndex MODULO INIT prime segmentLow =
     ucast ((add_multiple2 MODULO INIT prime segmentLow - (segmentLow + 6)) div 30)"

definition add_wheelIndex ::
  "uint_t \<Rightarrow> uint_t \<Rightarrow> WheelInit list \<Rightarrow> uint_t \<Rightarrow> uint64_t \<Rightarrow> uint_t" where
  "add_wheelIndex MODULO SIZE INIT prime segmentLow =
     wheelOffsets SIZE ! unat (prime mod 30)
     + ucast (wiWheelIndex (add_entry MODULO INIT prime segmentLow))"

text \<open>
  \<open>add\<close> retires the prime (returns before the call of \<open>store\<close>) at one of its two
  comparisons with \<open>stop_\<close>.
\<close>

definition add_retires ::
  "uint_t \<Rightarrow> WheelInit list \<Rightarrow> WheelFactorization \<Rightarrow> uint_t \<Rightarrow> uint64_t \<Rightarrow> bool" where
  "add_retires MODULO INIT eng prime segmentLow \<longleftrightarrow>
     add_multiple0 prime segmentLow > wfStop eng
     \<or> add_multiple2 MODULO INIT prime segmentLow > wfStop eng"

text \<open>
  No 64-bit operation of \<open>add\<close> wraps around: each addition and multiplication that the
  code performs, in the order of the code and on the operands it has there, has a
  result below \<open>2^64\<close> over the natural numbers, and the subtraction does not go below
  zero. The operations after a \<open>return\<close> are not performed.
\<close>

definition add_exact ::
  "uint_t \<Rightarrow> WheelInit list \<Rightarrow> WheelFactorization \<Rightarrow> uint_t \<Rightarrow> uint64_t \<Rightarrow> bool" where
  "add_exact MODULO INIT eng prime segmentLow \<longleftrightarrow>
     unat segmentLow + 6 < 2 ^ 64
     \<and> unat ((segmentLow + 6) div ucast prime) + 1 < 2 ^ 64
     \<and> unat prime * unat (add_quotient0 prime segmentLow) < 2 ^ 64
     \<and> (add_multiple0 prime segmentLow > wfStop eng
        \<or> unat prime * unat prime < 2 ^ 64
          \<and> unat prime * unat (wiNextMultipleFactor (add_entry MODULO INIT prime segmentLow))
              < 2 ^ 64
          \<and> unat (add_multiple1 prime segmentLow)
              + unat prime * unat (wiNextMultipleFactor (add_entry MODULO INIT prime segmentLow))
              < 2 ^ 64
          \<and> (add_multiple2 MODULO INIT prime segmentLow > wfStop eng
             \<or> unat (segmentLow + 6) \<le> unat (add_multiple2 MODULO INIT prime segmentLow)))"

text \<open>A storage sink that keeps the list of the calls it has received.\<close>

definition record_call ::
  "uint_t \<Rightarrow> uint_t \<Rightarrow> uint_t \<Rightarrow> (uint_t \<times> uint_t \<times> uint_t) list \<Rightarrow> (uint_t \<times> uint_t \<times> uint_t) list"
  where
  "record_call prime multipleIndex wheelIndex calls =
     calls @ [(prime, multipleIndex, wheelIndex)]"

subsection \<open>The steps of admit as the specification words them\<close>

text \<open>
  Steps 1 to 5 of the specification's \<open>admit\<close>, over the natural numbers: the floor of
  the quotient, the first comparison with \<open>stop\<close>, the raise to the square, the advance
  to the next multiple coprime to the wheel, the second comparison, and the two
  indexes. The tables are functions of the residue.
\<close>

definition admit_spec ::
  "nat \<Rightarrow> (nat \<Rightarrow> nat) \<Rightarrow> (nat \<Rightarrow> nat) \<Rightarrow> (nat \<Rightarrow> nat) \<Rightarrow> nat \<Rightarrow> nat \<Rightarrow> nat \<Rightarrow> (nat \<times> nat) option"
  where
  "admit_spec MODULO initFactor initIndex wheelOffset stop prime segmentLow =
     (let quotient = (segmentLow + 6) div prime + 1;
          multiple = prime * quotient
      in if multiple > stop then None
         else
           let (multiple, quotient) =
                 (if multiple < prime * prime then (prime * prime, prime)
                  else (multiple, quotient));
               multiple = multiple + prime * initFactor (quotient mod MODULO)
           in if multiple > stop then None
              else Some ((multiple - segmentLow - 6) div 30,
                         wheelOffset (prime mod 30) + initIndex (quotient mod MODULO)))"

subsection \<open>The wheel tables as the specification describes them\<close>

text \<open>
  Modelled from the spec: the tables of WheelFactorization.cpp are not part of the
  sources at hand. The specification (4.1) maps the residues coprime to the modulus to
  the spokes, which are numbered in increasing order of the residue.
\<close>

definition spokes :: "nat \<Rightarrow> nat list" where
  "spokes M = filter (\<lambda>r. coprime r M) [0..<M]"

text \<open>
  Modelled from the spec: \<open>WheelInit[r].nextMultipleFactor\<close>, an entry of the absent
  tables, is ``the smallest non-negative \<open>k\<close>'' such that \<open>quotient + k\<close> is coprime to the
  wheel's primes, where \<open>quotient\<close> has the residue \<open>r\<close>. Some \<open>k\<close> below the modulus does.
\<close>

definition nextCoprime :: "nat \<Rightarrow> nat \<Rightarrow> nat" where
  "nextCoprime M r = (case find (\<lambda>k. coprime (r + k) M) [0..<M] of None \<Rightarrow> 0 | Some k \<Rightarrow> k)"

text \<open>
  Modelled from the spec: an entry of the absent table \<open>WheelInit\<close>, that factor together
  with \<open>WheelInit[r].wheelIndex\<close>, ``the spoke that multiple lands on'': the number of
  the spoke of the residue \<open>r + k\<close>.
\<close>

definition wheelInitEntry :: "nat \<Rightarrow> nat \<Rightarrow> WheelInit" where
  "wheelInitEntry M r =
     \<lparr>wiNextMultipleFactor = of_nat (nextCoprime M r),
      wiWheelIndex =
        of_nat (length (takeWhile (\<lambda>x. x \<noteq> (r + nextCoprime M r) mod M) (spokes M)))\<rparr>"

text \<open>
  Modelled from the spec: the absent table \<open>wheel30Init\<close>, the 30 entries of \<open>WheelInit\<close>
  for the modulus 30.
\<close>

definition wheel30Init :: "WheelInit list" where
  "wheel30Init = map (wheelInitEntry 30) [0..<30]"

text \<open>
  Modelled from the spec: what the specification says of the two absent tables
  together. \<open>WHEEL[0].nextMultipleFactor\<close> is ``the largest jump any transition can
  apply'': no factor of \<open>INIT\<close> exceeds it, and it is at least 2, since a wheel that skips
  the even numbers has no two neighbouring spokes. A factor of \<open>INIT\<close> is the smallest one
  that reaches a residue coprime to the modulus: no smaller one reaches such a residue.
\<close>

definition tables_ok :: "uint_t \<Rightarrow> WheelInit list \<Rightarrow> WheelElement list \<Rightarrow> bool" where
  "tables_ok MODULO INIT WHEEL \<longleftrightarrow>
     2 \<le> getMaxFactor WHEEL
     \<and> (\<forall>r \<in> {0..<unat MODULO}.
          ucast (wiNextMultipleFactor (INIT ! r)) \<le> getMaxFactor WHEEL
          \<and> (\<forall>k \<in> {0..<unat (wiNextMultipleFactor (INIT ! r))}. \<not> coprime (r + k) (unat MODULO)))"

section \<open>The packed word of a WheelPrime\<close>

lemma low_bits_of_shifted:
  assumes "(wheelIndex :: uint_t) < 2 ^ 9"
  shows "drop_bit 23 (push_bit 23 wheelIndex) = wheelIndex"
proof -
  have "take_bit 9 wheelIndex = wheelIndex"
    using assms by (simp add: take_bit_eq_mask less_mask_eq)
  then have hi: "bit wheelIndex n \<Longrightarrow> n < 9" for n
    by (metis bit_take_bit_iff)
  show ?thesis
    by (rule bit_word_eqI) (auto simp: bit_simps dest: hi)
qed

lemma mask23: "(push_bit 23 1 - 1 :: uint_t) = mask 23"
  by (simp add: mask_eq_exp_minus_1)

lemma shifted_and_mask23: "push_bit 23 wheelIndex AND (mask 23 :: uint_t) = 0"
  by (simp flip: take_bit_eq_mask add: take_bit_push_bit)

lemma small_and_mask23: "(multipleIndex :: uint_t) < 2 ^ 23 \<Longrightarrow> multipleIndex AND mask 23 = multipleIndex"
  by (simp add: less_mask_eq)

lemma small_drop23: "(multipleIndex :: uint_t) < 2 ^ 23 \<Longrightarrow> drop_bit 23 multipleIndex = 0"
  by (simp add: take_bit_eq_mask less_mask_eq flip: take_bit_eq_self_iff_drop_bit_eq_0)

lemma pack_low:
  assumes "(multipleIndex :: uint_t) < 2 ^ 23"
  shows "(multipleIndex OR push_bit 23 wheelIndex) AND (push_bit 23 1 - 1) = multipleIndex"
  unfolding mask23
  by (simp add: bit.conj_disj_distrib2 shifted_and_mask23 small_and_mask23 [OF assms])

lemma pack_high:
  assumes "(multipleIndex :: uint_t) < 2 ^ 23" and "(wheelIndex :: uint_t) < 2 ^ 9"
  shows "drop_bit 23 (multipleIndex OR push_bit 23 wheelIndex) = wheelIndex"
  by (simp add: drop_bit_or small_drop23 [OF assms(1)] low_bits_of_shifted [OF assms(2)])

lemma getMultipleIndex_packed:
  assumes "multipleIndex < 2 ^ 23"
  shows "getMultipleIndex (wp\<lparr>wpIndexes := multipleIndex OR push_bit 23 wheelIndex\<rparr>)
         = multipleIndex"
proof -
  have sel: "wpIndexes (wp\<lparr>wpIndexes := multipleIndex OR push_bit 23 wheelIndex\<rparr>)
             = multipleIndex OR push_bit 23 wheelIndex"
    by simp
  show ?thesis
    unfolding getMultipleIndex_def sel by (rule pack_low [OF assms])
qed

lemma getWheelIndex_packed:
  assumes "multipleIndex < 2 ^ 23" and "wheelIndex < 2 ^ 9"
  shows "getWheelIndex (wp\<lparr>wpIndexes := multipleIndex OR push_bit 23 wheelIndex\<rparr>)
         = wheelIndex"
proof -
  have sel: "wpIndexes (wp\<lparr>wpIndexes := multipleIndex OR push_bit 23 wheelIndex\<rparr>)
             = multipleIndex OR push_bit 23 wheelIndex"
    by simp
  show ?thesis
    unfolding getWheelIndex_def sel by (rule pack_high [OF assms])
qed

lemma set2_in_range:
  assumes "multipleIndex < 2 ^ 23" and "wheelIndex < 2 ^ 9"
  shows "set2 multipleIndex wheelIndex wp
         = Inr (wp\<lparr>wpIndexes := multipleIndex OR push_bit 23 wheelIndex\<rparr>)"
  using assms by (simp add: set2_def)

lemma set3_in_range:
  assumes "multipleIndex < 2 ^ 23" and "wheelIndex < 2 ^ 9"
  shows "set3 sievingPrime multipleIndex wheelIndex wp
         = Inr (wp\<lparr>wpIndexes := multipleIndex OR push_bit 23 wheelIndex,
                   wpSievingPrime := sievingPrime\<rparr>)"
  by (simp add: set3_def set2_in_range [OF assms])

lemma packed_record:
  assumes "multipleIndex < 2 ^ 23" and "wheelIndex < 2 ^ 9"
  shows "getMultipleIndex (wp\<lparr>wpIndexes := multipleIndex OR push_bit 23 wheelIndex,
                               wpSievingPrime := sievingPrime\<rparr>) = multipleIndex"
    and "getWheelIndex (wp\<lparr>wpIndexes := multipleIndex OR push_bit 23 wheelIndex,
                            wpSievingPrime := sievingPrime\<rparr>) = wheelIndex"
    and "getSievingPrime (wp\<lparr>wpIndexes := multipleIndex OR push_bit 23 wheelIndex,
                              wpSievingPrime := sievingPrime\<rparr>) = sievingPrime"
proof -
  have eq: "wp\<lparr>wpIndexes := multipleIndex OR push_bit 23 wheelIndex,
               wpSievingPrime := sievingPrime\<rparr>
            = (wp\<lparr>wpSievingPrime := sievingPrime\<rparr>)
                \<lparr>wpIndexes := multipleIndex OR push_bit 23 wheelIndex\<rparr>"
    by simp
  show "getMultipleIndex (wp\<lparr>wpIndexes := multipleIndex OR push_bit 23 wheelIndex,
                               wpSievingPrime := sievingPrime\<rparr>) = multipleIndex"
    unfolding eq by (rule getMultipleIndex_packed [OF assms(1)])
  show "getWheelIndex (wp\<lparr>wpIndexes := multipleIndex OR push_bit 23 wheelIndex,
                            wpSievingPrime := sievingPrime\<rparr>) = wheelIndex"
    unfolding eq by (rule getWheelIndex_packed [OF assms(1,2)])
  show "getSievingPrime (wp\<lparr>wpIndexes := multipleIndex OR push_bit 23 wheelIndex,
                              wpSievingPrime := sievingPrime\<rparr>) = sievingPrime"
    by (simp add: getSievingPrime_def)
qed

text \<open>
  C5. For all \<open>multipleIndex < 2^23\<close> and \<open>wheelIndex < 2^9\<close>, packing the pair with
  \<open>WheelPrime::set\<close> succeeds (both assertions hold), and \<open>getMultipleIndex\<close> and
  \<open>getWheelIndex\<close> read the same pair back from the packed word; the overload that also
  takes the sieving prime gives the same two indexes and the sieving prime.
\<close>

theorem set_get_roundtrip:
  assumes "multipleIndex < 2 ^ 23" and "wheelIndex < 2 ^ 9"
  shows "(\<exists>wp'. set2 multipleIndex wheelIndex wp = Inr wp'
            \<and> getMultipleIndex wp' = multipleIndex
            \<and> getWheelIndex wp' = wheelIndex)
         \<and> (\<exists>wp'. set3 sievingPrime multipleIndex wheelIndex wp = Inr wp'
            \<and> getMultipleIndex wp' = multipleIndex
            \<and> getWheelIndex wp' = wheelIndex
            \<and> getSievingPrime wp' = sievingPrime)"
proof
  show "\<exists>wp'. set2 multipleIndex wheelIndex wp = Inr wp'
          \<and> getMultipleIndex wp' = multipleIndex \<and> getWheelIndex wp' = wheelIndex"
    using set2_in_range [OF assms] getMultipleIndex_packed [OF assms(1)]
      getWheelIndex_packed [OF assms]
    by blast
  show "\<exists>wp'. set3 sievingPrime multipleIndex wheelIndex wp = Inr wp'
          \<and> getMultipleIndex wp' = multipleIndex \<and> getWheelIndex wp' = wheelIndex
          \<and> getSievingPrime wp' = sievingPrime"
    using set3_in_range [OF assms] packed_record [OF assms]
    by blast
qed

theorem set_get_roundtrip_witness:
  "(8388607 :: uint_t) < 2 ^ 23 \<and> (511 :: uint_t) < 2 ^ 9
   \<and> (\<exists>wp'. set2 8388607 511 \<lparr>wpIndexes = 0, wpSievingPrime = 0\<rparr> = Inr wp'
          \<and> getMultipleIndex wp' = 8388607 \<and> getWheelIndex wp' = 511)"
proof -
  have a: "(8388607 :: uint_t) < 2 ^ 23" and b: "(511 :: uint_t) < 2 ^ 9"
    by simp_all
  show ?thesis
    using a b set_get_roundtrip [OF a b, of "\<lparr>wpIndexes = 0, wpSievingPrime = 0\<rparr>" 0]
    by blast
qed

section \<open>The two single-field setters\<close>

lemma or_absorb_iff: "(a OR m = m) \<longleftrightarrow> (a AND NOT m = 0)" for a m :: uint_t
  by (auto simp: bit_eq_iff bit_simps)

lemma getMultipleIndex_alt: "getMultipleIndex wp = wpIndexes wp AND mask 23"
  unfolding getMultipleIndex_def mask23 ..

lemma setWheelIndex_in_range:
  assumes "wheelIndex < 2 ^ 9"
  shows "setWheelIndex wheelIndex wp = Inr (wp\<lparr>wpIndexes := push_bit 23 wheelIndex\<rparr>)"
  using assms by (simp add: setWheelIndex_def)

lemma setMultipleIndex_in_range:
  assumes "multipleIndex < 2 ^ 23"
  shows "setMultipleIndex multipleIndex wp
         = Inr (wp\<lparr>wpIndexes := wpIndexes wp OR multipleIndex\<rparr>)"
  using assms by (simp add: setMultipleIndex_def)

lemma get_after_setWheelIndex:
  assumes "wheelIndex < 2 ^ 9"
  shows "getWheelIndex (wp\<lparr>wpIndexes := push_bit 23 wheelIndex\<rparr>) = wheelIndex"
    and "getMultipleIndex (wp\<lparr>wpIndexes := push_bit 23 wheelIndex\<rparr>) = 0"
proof -
  have sel: "wpIndexes (wp\<lparr>wpIndexes := push_bit 23 wheelIndex\<rparr>) = push_bit 23 wheelIndex"
    by simp
  show "getWheelIndex (wp\<lparr>wpIndexes := push_bit 23 wheelIndex\<rparr>) = wheelIndex"
    unfolding getWheelIndex_def sel by (rule low_bits_of_shifted [OF assms])
  show "getMultipleIndex (wp\<lparr>wpIndexes := push_bit 23 wheelIndex\<rparr>) = 0"
    unfolding getMultipleIndex_alt sel by (rule shifted_and_mask23)
qed

lemma get_after_setMultipleIndex:
  assumes "multipleIndex < 2 ^ 23"
  shows "getWheelIndex (wp\<lparr>wpIndexes := wpIndexes wp OR multipleIndex\<rparr>) = getWheelIndex wp"
    and "getMultipleIndex (wp\<lparr>wpIndexes := wpIndexes wp OR multipleIndex\<rparr>)
         = getMultipleIndex wp OR multipleIndex"
proof -
  have sel: "wpIndexes (wp\<lparr>wpIndexes := wpIndexes wp OR multipleIndex\<rparr>)
             = wpIndexes wp OR multipleIndex"
    by simp
  have "drop_bit 23 (wpIndexes wp OR multipleIndex) = drop_bit 23 (wpIndexes wp)"
    by (simp add: small_drop23 [OF assms])
  then show "getWheelIndex (wp\<lparr>wpIndexes := wpIndexes wp OR multipleIndex\<rparr>)
             = getWheelIndex wp"
    unfolding getWheelIndex_def sel .
  have "(wpIndexes wp OR multipleIndex) AND mask 23
        = (wpIndexes wp AND mask 23) OR (multipleIndex AND mask 23)"
    by (rule bit.conj_disj_distrib2)
  then show "getMultipleIndex (wp\<lparr>wpIndexes := wpIndexes wp OR multipleIndex\<rparr>)
             = getMultipleIndex wp OR multipleIndex"
    unfolding getMultipleIndex_alt sel by (simp only: small_and_mask23 [OF assms])
qed

text \<open>
  C10, as the claim words it, fails. A record whose \<open>multipleIndex\<close> field holds 1 (and
  whose \<open>wheelIndex\<close> field holds 5, so \<open>indexes_ = 1 | 5 << 23 = 41943041\<close>) is given
  \<open>setMultipleIndex(3)\<close>: afterwards \<open>getMultipleIndex()\<close> returns 3, the argument, and
  \<open>getWheelIndex()\<close> is still 5, although the field was not 0 beforehand.
\<close>

theorem setMultipleIndex_counterexample:
  "getMultipleIndex \<lparr>wpIndexes = 41943041, wpSievingPrime = 0\<rparr> = 1
   \<and> getWheelIndex \<lparr>wpIndexes = 41943041, wpSievingPrime = 0\<rparr> = 5
   \<and> setMultipleIndex 3 \<lparr>wpIndexes = 41943041, wpSievingPrime = 0\<rparr>
       = Inr \<lparr>wpIndexes = 41943043, wpSievingPrime = 0\<rparr>
   \<and> getMultipleIndex \<lparr>wpIndexes = 41943043, wpSievingPrime = 0\<rparr> = 3
   \<and> getWheelIndex \<lparr>wpIndexes = 41943043, wpSievingPrime = 0\<rparr> = 5"
  by (simp add: getMultipleIndex_def getWheelIndex_def setMultipleIndex_def drop_bit_eq_div)

text \<open>
  C10, amended. For every WheelPrime record and every \<open>wheelIndex < 2^9\<close>,
  \<open>setWheelIndex\<close> sets the whole packed word to \<open>wheelIndex << 23\<close>, so afterwards
  \<open>getWheelIndex()\<close> returns \<open>wheelIndex\<close> and \<open>getMultipleIndex()\<close> returns 0: the
  multipleIndex stored before is discarded. For every \<open>multipleIndex < 2^23\<close>,
  \<open>setMultipleIndex\<close> ORs it into the word: the wheelIndex is unchanged and
  \<open>getMultipleIndex()\<close> returns the old field ORed with the argument. That is the
  argument exactly when the old field has no bit outside it: always when the old field
  was 0, and also for some old fields other than 0.
\<close>

theorem setters_effect:
  assumes "wheelIndex < 2 ^ 9" and "multipleIndex < 2 ^ 23"
  shows "(\<exists>wp'. setWheelIndex wheelIndex wp = Inr wp'
            \<and> wpIndexes wp' = push_bit 23 wheelIndex
            \<and> getWheelIndex wp' = wheelIndex
            \<and> getMultipleIndex wp' = 0)
         \<and> (\<exists>wp'. setMultipleIndex multipleIndex wp = Inr wp'
            \<and> wpIndexes wp' = wpIndexes wp OR multipleIndex
            \<and> getWheelIndex wp' = getWheelIndex wp
            \<and> getMultipleIndex wp' = getMultipleIndex wp OR multipleIndex
            \<and> (getMultipleIndex wp' = multipleIndex
                 \<longleftrightarrow> getMultipleIndex wp AND NOT multipleIndex = 0)
            \<and> (getMultipleIndex wp = 0 \<longrightarrow> getMultipleIndex wp' = multipleIndex))"
proof
  show "\<exists>wp'. setWheelIndex wheelIndex wp = Inr wp'
            \<and> wpIndexes wp' = push_bit 23 wheelIndex
            \<and> getWheelIndex wp' = wheelIndex
            \<and> getMultipleIndex wp' = 0"
    using setWheelIndex_in_range [OF assms(1)] get_after_setWheelIndex [OF assms(1)]
    by simp
  let ?wp' = "wp\<lparr>wpIndexes := wpIndexes wp OR multipleIndex\<rparr>"
  have 1: "setMultipleIndex multipleIndex wp = Inr ?wp'"
    by (rule setMultipleIndex_in_range [OF assms(2)])
  have 2: "wpIndexes ?wp' = wpIndexes wp OR multipleIndex"
    by simp
  have 3: "getWheelIndex ?wp' = getWheelIndex wp"
    by (rule get_after_setMultipleIndex(1) [OF assms(2)])
  have 4: "getMultipleIndex ?wp' = getMultipleIndex wp OR multipleIndex"
    by (rule get_after_setMultipleIndex(2) [OF assms(2)])
  have 5: "getMultipleIndex ?wp' = multipleIndex
           \<longleftrightarrow> getMultipleIndex wp AND NOT multipleIndex = 0"
    unfolding 4 by (rule or_absorb_iff)
  have 6: "getMultipleIndex wp = 0 \<longrightarrow> getMultipleIndex ?wp' = multipleIndex"
    unfolding 4 by simp
  show "\<exists>wp'. setMultipleIndex multipleIndex wp = Inr wp'
            \<and> wpIndexes wp' = wpIndexes wp OR multipleIndex
            \<and> getWheelIndex wp' = getWheelIndex wp
            \<and> getMultipleIndex wp' = getMultipleIndex wp OR multipleIndex
            \<and> (getMultipleIndex wp' = multipleIndex
                 \<longleftrightarrow> getMultipleIndex wp AND NOT multipleIndex = 0)
            \<and> (getMultipleIndex wp = 0 \<longrightarrow> getMultipleIndex wp' = multipleIndex)"
    using 1 2 3 4 5 6 by blast
qed

theorem setters_effect_witness:
  "(5 :: uint_t) < 2 ^ 9 \<and> (3 :: uint_t) < 2 ^ 23
   \<and> getMultipleIndex \<lparr>wpIndexes = 41943040, wpSievingPrime = 7\<rparr> = 0
   \<and> (\<exists>wp'. setWheelIndex 5 \<lparr>wpIndexes = 41943040, wpSievingPrime = 7\<rparr> = Inr wp'
          \<and> getWheelIndex wp' = 5 \<and> getMultipleIndex wp' = 0)
   \<and> (\<exists>wp'. setMultipleIndex 3 \<lparr>wpIndexes = 41943040, wpSievingPrime = 7\<rparr> = Inr wp'
          \<and> getMultipleIndex wp' = 3)"
proof -
  have a: "(5 :: uint_t) < 2 ^ 9" and b: "(3 :: uint_t) < 2 ^ 23"
    by simp_all
  have c: "getMultipleIndex \<lparr>wpIndexes = 41943040, wpSievingPrime = 7\<rparr> = 0"
    by (simp add: getMultipleIndex_def)
  show ?thesis
    using a b c setters_effect [OF a b, of "\<lparr>wpIndexes = 41943040, wpSievingPrime = 7\<rparr>"]
    by blast
qed

section \<open>Storing into a bucket\<close>

lemma store_in_range:
  assumes "bkCurrent b < BUCKETSIZE b" and "multipleIndex < 2 ^ 23" and "wheelIndex < 2 ^ 9"
  shows "store sievingPrime multipleIndex wheelIndex b
         = Inr (bkCurrent b \<noteq> bkLast b,
                b\<lparr>bkCurrent := bkCurrent b + 1,
                  bkWheelPrimes := (bkWheelPrimes b)
                    [bkCurrent b := (bkWheelPrimes b ! bkCurrent b)
                       \<lparr>wpIndexes := multipleIndex OR push_bit 23 wheelIndex,
                        wpSievingPrime := sievingPrime\<rparr>]\<rparr>)"
  using assms(1)
  by (simp add: store_def Let_def BUCKETSIZE_def bkLast_def set3_in_range [OF assms(2,3)])

text \<open>
  C4. For every bucket whose cursor is inside the array, and every record that
  \<open>WheelPrime::set\<close> accepts, \<open>store\<close> writes the record into the slot under the cursor
  (the three getters read the three arguments back from it), leaves every other slot,
  the size and the link as they are, advances the cursor by one, and returns true
  exactly when the slot written was not the last slot, \<open>BUCKETSIZE - 1\<close>. So the call
  that returns false has written the last slot.
\<close>

theorem store_writes_slot:
  assumes "bkCurrent b < BUCKETSIZE b" and "multipleIndex < 2 ^ 23" and "wheelIndex < 2 ^ 9"
  shows "\<exists>more b'. store sievingPrime multipleIndex wheelIndex b = Inr (more, b')
           \<and> getSievingPrime (bkWheelPrimes b' ! bkCurrent b) = sievingPrime
           \<and> getMultipleIndex (bkWheelPrimes b' ! bkCurrent b) = multipleIndex
           \<and> getWheelIndex (bkWheelPrimes b' ! bkCurrent b) = wheelIndex
           \<and> (\<forall>j. j \<noteq> bkCurrent b \<longrightarrow> bkWheelPrimes b' ! j = bkWheelPrimes b ! j)
           \<and> BUCKETSIZE b' = BUCKETSIZE b
           \<and> bkNext b' = bkNext b
           \<and> bkCurrent b' = bkCurrent b + 1
           \<and> (more \<longleftrightarrow> bkCurrent b \<noteq> BUCKETSIZE b - 1)"
proof -
  let ?wp = "(bkWheelPrimes b ! bkCurrent b)
               \<lparr>wpIndexes := multipleIndex OR push_bit 23 wheelIndex,
                wpSievingPrime := sievingPrime\<rparr>"
  let ?b' = "b\<lparr>bkCurrent := bkCurrent b + 1,
               bkWheelPrimes := (bkWheelPrimes b)[bkCurrent b := ?wp]\<rparr>"
  have len: "bkCurrent b < length (bkWheelPrimes b)"
    using assms(1) by (simp add: BUCKETSIZE_def)
  have slot: "bkWheelPrimes ?b' ! bkCurrent b = ?wp"
    using len by simp
  have "store sievingPrime multipleIndex wheelIndex b = Inr (bkCurrent b \<noteq> bkLast b, ?b')"
    by (rule store_in_range [OF assms])
  moreover have "getSievingPrime (bkWheelPrimes ?b' ! bkCurrent b) = sievingPrime"
    unfolding slot by (rule packed_record(3) [OF assms(2,3)])
  moreover have "getMultipleIndex (bkWheelPrimes ?b' ! bkCurrent b) = multipleIndex"
    unfolding slot by (rule packed_record(1) [OF assms(2,3)])
  moreover have "getWheelIndex (bkWheelPrimes ?b' ! bkCurrent b) = wheelIndex"
    unfolding slot by (rule packed_record(2) [OF assms(2,3)])
  moreover have "\<forall>j. j \<noteq> bkCurrent b \<longrightarrow> bkWheelPrimes ?b' ! j = bkWheelPrimes b ! j"
    by simp
  moreover have "BUCKETSIZE ?b' = BUCKETSIZE b" "bkNext ?b' = bkNext b"
    "bkCurrent ?b' = bkCurrent b + 1"
    by (simp_all add: BUCKETSIZE_def)
  moreover have "(bkCurrent b \<noteq> bkLast b) \<longleftrightarrow> bkCurrent b \<noteq> BUCKETSIZE b - 1"
    by (simp add: bkLast_def)
  ultimately show ?thesis
    by blast
qed

text \<open>
  The witness is a bucket of two slots whose cursor is on the last one: the call
  returns false, the last slot holds the record and the first slot is untouched.
\<close>

theorem store_writes_slot_witness:
  "bkCurrent \<lparr>bkCurrent = 1, bkNext = None,
              bkWheelPrimes = [\<lparr>wpIndexes = 0, wpSievingPrime = 0\<rparr>,
                               \<lparr>wpIndexes = 0, wpSievingPrime = 0\<rparr>]\<rparr>
     < BUCKETSIZE \<lparr>bkCurrent = 1, bkNext = None,
                   bkWheelPrimes = [\<lparr>wpIndexes = 0, wpSievingPrime = 0\<rparr>,
                                    \<lparr>wpIndexes = 0, wpSievingPrime = 0\<rparr>]\<rparr>
   \<and> (5 :: uint_t) < 2 ^ 23 \<and> (3 :: uint_t) < 2 ^ 9
   \<and> (\<exists>b'. store 7 5 3 \<lparr>bkCurrent = 1, bkNext = None,
                          bkWheelPrimes = [\<lparr>wpIndexes = 0, wpSievingPrime = 0\<rparr>,
                                           \<lparr>wpIndexes = 0, wpSievingPrime = 0\<rparr>]\<rparr>
            = Inr (False, b')
          \<and> getSievingPrime (bkWheelPrimes b' ! 1) = 7
          \<and> getMultipleIndex (bkWheelPrimes b' ! 1) = 5
          \<and> getWheelIndex (bkWheelPrimes b' ! 1) = 3
          \<and> bkWheelPrimes b' ! 0 = \<lparr>wpIndexes = 0, wpSievingPrime = 0\<rparr>
          \<and> bkCurrent b' = 2)"
proof -
  let ?b = "\<lparr>bkCurrent = 1, bkNext = None,
             bkWheelPrimes = [\<lparr>wpIndexes = 0, wpSievingPrime = 0\<rparr>,
                              \<lparr>wpIndexes = 0, wpSievingPrime = 0\<rparr>]\<rparr>"
  have a: "bkCurrent ?b < BUCKETSIZE ?b"
    by (simp add: BUCKETSIZE_def)
  have b: "(5 :: uint_t) < 2 ^ 23" and c: "(3 :: uint_t) < 2 ^ 9"
    by simp_all
  have d: "BUCKETSIZE ?b - 1 = bkCurrent ?b" "bkCurrent ?b = 1" "(0::nat) \<noteq> 1"
    by (simp_all add: BUCKETSIZE_def)
  show ?thesis
    using a b c store_writes_slot [OF a b c, of 7] unfolding d
    by (elim exE conjE) (auto simp: d)
qed

section \<open>Reading words as numbers\<close>

lemma unat_ucast_8_32: "unat (ucast (x :: uint8_t) :: uint_t) = unat x"
proof -
  have "unat x < 2 ^ 8" using unsigned_less [of x] by simp
  then have "unat x < 2 ^ 32" by simp
  then show ?thesis by (simp add: unsigned_ucast_eq take_bit_nat_eq_self)
qed

lemma unat_ucast_8_64: "unat (ucast (x :: uint8_t) :: uint64_t) = unat x"
proof -
  have "unat x < 2 ^ 8" using unsigned_less [of x] by simp
  then have "unat x < 2 ^ 64" by simp
  then show ?thesis by (simp add: unsigned_ucast_eq take_bit_nat_eq_self)
qed

lemma unat_ucast_32_64: "unat (ucast (x :: uint_t) :: uint64_t) = unat x"
proof -
  have "unat x < 2 ^ 32" using unsigned_less [of x] by simp
  then have "unat x < 2 ^ 64" by simp
  then show ?thesis by (simp add: unsigned_ucast_eq take_bit_nat_eq_self)
qed

lemma unat_factor_bound: "unat (x :: uint8_t) \<le> 255"
  using unsigned_less [of x, where 'a = nat] by simp

lemma unat_prime_bound: "unat (x :: uint_t) \<le> 2 ^ 32 - 1"
  using unsigned_less [of x, where 'a = nat] by simp

lemma unat_mult64: "unat a * unat b < 2 ^ 64 \<Longrightarrow> unat (a * b) = unat a * unat b"
  for a b :: uint64_t
  using unat_mult_lem [of a b] by simp

lemma unat_add64: "unat a + unat b < 2 ^ 64 \<Longrightarrow> unat (a + b) = unat a + unat b"
  for a b :: uint64_t
  using unat_add_lem [of a b] by simp

lemma unat_max64: "unat (- 1 :: uint64_t) = 2 ^ 64 - 1"
  by (simp add: unsigned_minus_1_eq_mask mask_eq_exp_minus_1)

lemma unat_add32: "unat (a + b) = (unat a + unat b) mod 2 ^ 32" for a b :: uint_t
  using unat_word_ariths(1) [of a b] by simp

lemma unat_mult32: "unat (a * b) = (unat a * unat b) mod 2 ^ 32" for a b :: uint_t
  using unat_word_ariths(2) [of a b] by simp

lemma unat_step:
  fixes mi sp :: uint_t and f c :: uint8_t
  shows "unat (mi + ucast f * sp + ucast c) = (unat mi + unat f * unat sp + unat c) mod 2 ^ 32"
proof -
  have "unat (mi + ucast f * sp + ucast c)
        = ((unat mi + (unat f * unat sp) mod 2 ^ 32) mod 2 ^ 32 + unat c) mod 2 ^ 32"
    by (simp only: unat_add32 unat_mult32 unat_ucast_8_32)
  also have "\<dots> = (unat mi + unat f * unat sp + unat c) mod 2 ^ 32"
    by (simp only: mod_add_left_eq mod_add_right_eq)
  finally show ?thesis .
qed

lemma uint_add32: "uint (a + b) = (uint a + uint b) mod 2 ^ 32" for a b :: uint_t
  using uint_word_ariths(1) [of a b] by simp

lemma uint_scast_8_32: "uint (scast (n :: int8_t) :: uint_t) = sint n mod 2 ^ 32"
  by (simp only: scast_eq uint_word_of_int) simp

lemma uint_step:
  fixes wi :: uint_t and n :: int8_t
  shows "uint (wi + scast n) = (uint wi + sint n) mod 2 ^ 32"
  by (simp only: uint_add32 uint_scast_8_32 mod_add_right_eq)

section \<open>The cross-off step\<close>

lemma unsetBit_in_range:
  assumes "unat wheelIndex < length WHEEL" and "unat multipleIndex < length sieve"
  shows "unsetBit WHEEL sieve sievingPrime multipleIndex wheelIndex
         = Inr (sieve[unat multipleIndex :=
                        sieve ! unat multipleIndex AND weUnsetBit (WHEEL ! unat wheelIndex)],
                multipleIndex
                  + ucast (weNextMultipleFactor (WHEEL ! unat wheelIndex)) * sievingPrime
                  + ucast (weCorrect (WHEEL ! unat wheelIndex)),
                wheelIndex + scast (weNext (WHEEL ! unat wheelIndex)))"
  using assms by (simp add: unsetBit_def Let_def)

text \<open>
  C3. For every sieve array, \<open>sievingPrime\<close>, \<open>multipleIndex\<close> inside the sieve and
  \<open>wheelIndex\<close> inside \<open>WHEEL\<close>, one call of \<open>unsetBit\<close> replaces the byte
  \<open>sieve[multipleIndex]\<close> by \<open>sieve[multipleIndex] & WHEEL[wheelIndex].unsetBit\<close> and leaves
  every other byte and the length of the sieve as they are; it replaces \<open>multipleIndex\<close>
  by \<open>multipleIndex + WHEEL[wheelIndex].nextMultipleFactor * sievingPrime
  + WHEEL[wheelIndex].correct\<close> and \<open>wheelIndex\<close> by \<open>wheelIndex + WHEEL[wheelIndex].next\<close>.
  The sums are those of \<open>uint_t\<close>: as numbers they are taken modulo \<open>2^32\<close>, the signed
  \<open>next\<close> with its sign. The sieving prime is passed by value and is not returned: the
  caller's copy cannot change.
\<close>

theorem unsetBit_step:
  assumes "unat wheelIndex < length WHEEL" and "unat multipleIndex < length sieve"
  shows "\<exists>sieve' multipleIndex' wheelIndex'.
           unsetBit WHEEL sieve sievingPrime multipleIndex wheelIndex
             = Inr (sieve', multipleIndex', wheelIndex')
           \<and> sieve' ! unat multipleIndex
               = sieve ! unat multipleIndex AND weUnsetBit (WHEEL ! unat wheelIndex)
           \<and> (\<forall>j. j \<noteq> unat multipleIndex \<longrightarrow> sieve' ! j = sieve ! j)
           \<and> length sieve' = length sieve
           \<and> multipleIndex'
               = multipleIndex
                 + ucast (weNextMultipleFactor (WHEEL ! unat wheelIndex)) * sievingPrime
                 + ucast (weCorrect (WHEEL ! unat wheelIndex))
           \<and> unat multipleIndex'
               = (unat multipleIndex
                  + unat (weNextMultipleFactor (WHEEL ! unat wheelIndex)) * unat sievingPrime
                  + unat (weCorrect (WHEEL ! unat wheelIndex))) mod 2 ^ 32
           \<and> wheelIndex' = wheelIndex + scast (weNext (WHEEL ! unat wheelIndex))
           \<and> uint wheelIndex'
               = (uint wheelIndex + sint (weNext (WHEEL ! unat wheelIndex))) mod 2 ^ 32"
proof -
  let ?e = "WHEEL ! unat wheelIndex"
  let ?sieve' = "sieve[unat multipleIndex := sieve ! unat multipleIndex AND weUnsetBit ?e]"
  have "?sieve' ! unat multipleIndex = sieve ! unat multipleIndex AND weUnsetBit ?e"
    using assms(2) by simp
  moreover have "\<forall>j. j \<noteq> unat multipleIndex \<longrightarrow> ?sieve' ! j = sieve ! j"
    by simp
  moreover have "length ?sieve' = length sieve"
    by simp
  ultimately show ?thesis
    using unsetBit_in_range [OF assms, of sievingPrime]
      unat_step [of multipleIndex "weNextMultipleFactor ?e" sievingPrime "weCorrect ?e"]
      uint_step [of wheelIndex "weNext ?e"]
    by blast
qed

text \<open>
  The witness runs the step on a table of eight transitions, at the last one, which
  steps back by 7: byte 1 of the sieve loses one bit, the index goes from 1 to
  \<open>1 + 2 * 3 + 1 = 8\<close> and the wheel index from 7 to 0.
\<close>

theorem unsetBit_step_witness:
  "unat (7 :: uint_t) < length [\<lparr>weUnsetBit = 0xFE, weNextMultipleFactor = 6, weCorrect = 1, weNext = 1\<rparr>,
        \<lparr>weUnsetBit = 0xEF, weNextMultipleFactor = 4, weCorrect = 1, weNext = 1\<rparr>,
        \<lparr>weUnsetBit = 0xF7, weNextMultipleFactor = 2, weCorrect = 0, weNext = 1\<rparr>,
        \<lparr>weUnsetBit = 0x7F, weNextMultipleFactor = 4, weCorrect = 1, weNext = 1\<rparr>,
        \<lparr>weUnsetBit = 0xBF, weNextMultipleFactor = 2, weCorrect = 1, weNext = 1\<rparr>,
        \<lparr>weUnsetBit = 0xFB, weNextMultipleFactor = 4, weCorrect = 1, weNext = 1\<rparr>,
        \<lparr>weUnsetBit = 0xFD, weNextMultipleFactor = 6, weCorrect = 1, weNext = 1\<rparr>,
        \<lparr>weUnsetBit = 0xDF, weNextMultipleFactor = 2, weCorrect = 1, weNext = - 7\<rparr>]
   \<and> unat (1 :: uint_t) < length [0xFF, 0xFF, 0xFF :: uint8_t]
   \<and> unsetBit
        [\<lparr>weUnsetBit = 0xFE, weNextMultipleFactor = 6, weCorrect = 1, weNext = 1\<rparr>,
         \<lparr>weUnsetBit = 0xEF, weNextMultipleFactor = 4, weCorrect = 1, weNext = 1\<rparr>,
         \<lparr>weUnsetBit = 0xF7, weNextMultipleFactor = 2, weCorrect = 0, weNext = 1\<rparr>,
         \<lparr>weUnsetBit = 0x7F, weNextMultipleFactor = 4, weCorrect = 1, weNext = 1\<rparr>,
         \<lparr>weUnsetBit = 0xBF, weNextMultipleFactor = 2, weCorrect = 1, weNext = 1\<rparr>,
         \<lparr>weUnsetBit = 0xFB, weNextMultipleFactor = 4, weCorrect = 1, weNext = 1\<rparr>,
         \<lparr>weUnsetBit = 0xFD, weNextMultipleFactor = 6, weCorrect = 1, weNext = 1\<rparr>,
         \<lparr>weUnsetBit = 0xDF, weNextMultipleFactor = 2, weCorrect = 1, weNext = - 7\<rparr>]
        [0xFF, 0xFF, 0xFF] 3 1 7
       = Inr ([0xFF, 0xDF, 0xFF], 8, 0)"
proof -
  let ?W = "[\<lparr>weUnsetBit = 0xFE, weNextMultipleFactor = 6, weCorrect = 1, weNext = 1\<rparr>,
        \<lparr>weUnsetBit = 0xEF, weNextMultipleFactor = 4, weCorrect = 1, weNext = 1\<rparr>,
        \<lparr>weUnsetBit = 0xF7, weNextMultipleFactor = 2, weCorrect = 0, weNext = 1\<rparr>,
        \<lparr>weUnsetBit = 0x7F, weNextMultipleFactor = 4, weCorrect = 1, weNext = 1\<rparr>,
        \<lparr>weUnsetBit = 0xBF, weNextMultipleFactor = 2, weCorrect = 1, weNext = 1\<rparr>,
        \<lparr>weUnsetBit = 0xFB, weNextMultipleFactor = 4, weCorrect = 1, weNext = 1\<rparr>,
        \<lparr>weUnsetBit = 0xFD, weNextMultipleFactor = 6, weCorrect = 1, weNext = 1\<rparr>,
        \<lparr>weUnsetBit = 0xDF, weNextMultipleFactor = 2, weCorrect = 1, weNext = - 7 :: int8_t\<rparr>]"
  have a: "unat (7 :: uint_t) < length ?W" and b: "unat (1 :: uint_t) < length [0xFF, 0xFF, 0xFF :: uint8_t]"
    by simp_all
  have c: "?W ! unat (7 :: uint_t) = \<lparr>weUnsetBit = 0xDF, weNextMultipleFactor = 2, weCorrect = 1, weNext = - 7\<rparr>"
    by simp
  obtain sieve' mi' wi' where r: "unsetBit ?W [0xFF, 0xFF, 0xFF] 3 1 7 = Inr (sieve', mi', wi')"
     and s1: "sieve' ! unat (1 :: uint_t) = [0xFF, 0xFF, 0xFF] ! unat (1 :: uint_t) AND weUnsetBit (?W ! unat (7 :: uint_t))"
     and s2: "\<forall>j. j \<noteq> unat (1 :: uint_t) \<longrightarrow> sieve' ! j = [0xFF, 0xFF, 0xFF] ! j"
     and s3: "length sieve' = length [0xFF, 0xFF, 0xFF :: uint8_t]"
     and m: "mi' = 1 + ucast (weNextMultipleFactor (?W ! unat (7 :: uint_t))) * 3 + ucast (weCorrect (?W ! unat (7 :: uint_t)))"
     and w: "wi' = 7 + scast (weNext (?W ! unat (7 :: uint_t)))"
    using unsetBit_step [OF a b, of 3] by blast
  have "mi' = 8" unfolding m c by simp
  moreover have "wi' = 0" unfolding w c by simp
  moreover have "sieve' = [0xFF, 0xDF, 0xFF]"
  proof (rule nth_equalityI)
    show "length sieve' = length [0xFF, 0xDF, 0xFF :: uint8_t]" using s3 by simp
    fix i assume "i < length sieve'"
    then have "i = 0 \<or> i = 1 \<or> i = 2" using s3 by auto
    then show "sieve' ! i = [0xFF, 0xDF, 0xFF] ! i"
      using s1 s2 unfolding c by auto
  qed
  ultimately show ?thesis using a b r by simp
qed

section \<open>The table of wheel offsets\<close>

lemma upt30:
  "[0..<30] = [0, 1, 2, 3, 4, 5, 6, 7, 8, 9, 10, 11, 12, 13, 14, 15, 16, 17, 18, 19,
               20, 21, 22, 23, 24, 25, 26, 27, 28, 29]"
  by (simp add: upt_rec)

lemma below30: "(\<forall>r < 30. P r) \<longleftrightarrow> (\<forall>r \<in> set [0..<30]. P (r :: nat))"
  by auto

lemma wheelOffsets_not_coprime:
  "\<forall>r < 30. 2 dvd r \<or> 3 dvd r \<or> 5 dvd r \<longrightarrow> wheelOffsets SIZE ! r = 0xFF"
  unfolding below30 upt30 by (simp add: wheelOffsets_def)

lemma wheelOffsets_coprime_8:
  "\<forall>r < 30. \<not> (2 dvd r \<or> 3 dvd r \<or> 5 dvd r) \<longrightarrow> wheelOffsets 8 ! r \<noteq> 0xFF"
  unfolding below30 upt30 by (simp add: wheelOffsets_def)

lemma wheelOffsets_coprime_48:
  "\<forall>r < 30. \<not> (2 dvd r \<or> 3 dvd r \<or> 5 dvd r) \<longrightarrow> wheelOffsets 48 ! r \<noteq> 0xFF"
  unfolding below30 upt30 by (simp add: wheelOffsets_def)

lemma unat_mod30: "unat (prime mod 30) = unat prime mod 30" for prime :: uint_t
  by (simp add: unat_mod_distrib)

lemma dvd_mod30: "(2 dvd n mod 30 \<or> 3 dvd n mod 30 \<or> 5 dvd n mod 30) \<longleftrightarrow> (2 dvd n \<or> 3 dvd n \<or> 5 dvd n)" for n :: nat
  by (simp add: dvd_mod_iff)

text \<open>
  C9, as the claim words it, fails for the second wheel of the header. The typedef
  \<open>Modulo210Wheel_t\<close> has \<open>MODULO = 210\<close> and \<open>SIZE = 48\<close>; it skips the multiples of 2, 3,
  5 and 7, so 7 is in its excluded set. The entry of \<open>wheelOffsets_\<close> at \<open>7 mod 30\<close> is
  \<open>0 * SIZE = 0\<close>, the base of the first spoke group, not \<open>0xFF\<close>.
\<close>

theorem wheelOffsets_excluded_210_counterexample:
  "(7 :: nat) dvd 210 \<and> wheelOffsets 48 ! unat ((7 :: uint_t) mod 30) = 0 * 48
   \<and> wheelOffsets 48 ! unat ((7 :: uint_t) mod 30) \<noteq> 0xFF"
  by (simp add: wheelOffsets_def)

text \<open>
  C9, amended. For every prime that divides 30, that is 2, 3 and 5 (and for every
  other argument divisible by 2, 3 or 5), the entry of \<open>wheelOffsets_\<close> at
  \<open>prime mod 30\<close> is \<open>0xFF\<close>, whatever \<open>SIZE\<close> is. For the two wheels of the header
  (\<open>SIZE = 8\<close> and \<open>SIZE = 48\<close>) no entry at a residue coprime to 30 is \<open>0xFF\<close>, so the
  lookup for such a prime gives no spoke-group base. The prime 7, which the modulo 210
  wheel also excludes, is not marked: its entry is the base \<open>0 * SIZE\<close>.
\<close>

theorem wheelOffsets_sentinel:
  fixes prime :: uint_t
  assumes "2 dvd unat prime \<or> 3 dvd unat prime \<or> 5 dvd unat prime"
  shows "wheelOffsets SIZE ! unat (prime mod 30) = 0xFF
         \<and> (\<forall>r < 30. \<not> (2 dvd r \<or> 3 dvd r \<or> 5 dvd r) \<longrightarrow>
               wheelOffsets 8 ! r \<noteq> 0xFF \<and> wheelOffsets 48 ! r \<noteq> 0xFF)"
proof -
  have "unat prime mod 30 < 30" by simp
  moreover have "2 dvd unat prime mod 30 \<or> 3 dvd unat prime mod 30 \<or> 5 dvd unat prime mod 30"
    using assms by (simp only: dvd_mod30)
  ultimately have "wheelOffsets SIZE ! (unat prime mod 30) = 0xFF"
    using wheelOffsets_not_coprime [of SIZE] by blast
  then have "wheelOffsets SIZE ! unat (prime mod 30) = 0xFF"
    unfolding unat_mod30 .
  then show ?thesis
    using wheelOffsets_coprime_8 wheelOffsets_coprime_48 by blast
qed


theorem wheelOffsets_sentinel_witness:
  "(2 dvd unat (5 :: uint_t) \<or> 3 dvd unat (5 :: uint_t) \<or> 5 dvd unat (5 :: uint_t))
   \<and> wheelOffsets 8 ! unat ((5 :: uint_t) mod 30) = 0xFF
   \<and> \<not> (2 dvd (7::nat) \<or> 3 dvd (7::nat) \<or> 5 dvd (7::nat))
   \<and> wheelOffsets 8 ! 7 \<noteq> 0xFF"
proof -
  have a: "2 dvd unat (5 :: uint_t) \<or> 3 dvd unat (5 :: uint_t) \<or> 5 dvd unat (5 :: uint_t)"
    by simp
  have b: "\<not> (2 dvd (7::nat) \<or> 3 dvd (7::nat) \<or> 5 dvd (7::nat))" "(7::nat) < 30"
    by simp_all
  show ?thesis
    using a b wheelOffsets_sentinel [OF a, of 8] by blast
qed

section \<open>Construction and the largest stop\<close>

lemma unat_maxPrime: "unat (ucast (- 1 :: uint32_t) :: uint64_t) = 2 ^ 32 - 1"
  by (simp add: unat_ucast_32_64 unsigned_minus_1_eq_mask mask_eq_exp_minus_1)

lemma maxPrime_value: "(ucast (- 1 :: uint32_t) :: uint64_t) = 4294967295"
  by (simp add: word_unat_eq_iff unat_maxPrime)

lemma unat_getMaxFactor: "unat (getMaxFactor WHEEL) = unat (weNextMultipleFactor (WHEEL ! 0))"
  by (simp add: getMaxFactor_def unat_ucast_8_32)

lemma unat_getMaxStop:
  "unat (getMaxStop WHEEL) = (2 ^ 64 - 1) - (2 ^ 32 - 1) * unat (weNextMultipleFactor (WHEEL ! 0))"
proof -
  let ?f = "unat (weNextMultipleFactor (WHEEL ! 0))"
  let ?m = "ucast (- 1 :: uint32_t) :: uint64_t"
  let ?g = "ucast (getMaxFactor WHEEL) :: uint64_t"
  have g: "unat ?g = ?f"
    by (simp only: unat_ucast_32_64 unat_getMaxFactor)
  have "(2 ^ 32 - 1) * ?f \<le> (2 ^ 32 - 1) * (255 :: nat)"
    using unat_factor_bound by (intro mult_le_mono2)
  then have "unat ?m * unat ?g < 2 ^ 64"
    unfolding g unat_maxPrime by simp
  then have "unat (?m * ?g) = unat ?m * unat ?g"
    by (rule unat_mult64)
  then have prod: "unat (?m * ?g) = (2 ^ 32 - 1) * ?f"
    unfolding g unat_maxPrime .
  have "unat ((- 1) - ?m * ?g) = unat (- 1 :: uint64_t) - unat (?m * ?g)"
    by (rule unat_sub) simp
  also have "\<dots> = (2 ^ 64 - 1) - (2 ^ 32 - 1) * ?f"
    unfolding prod unat_max64 ..
  finally show ?thesis
    by (simp only: getMaxStop_def Let_def)
qed

lemma getMaxStop_succ:
  assumes "weNextMultipleFactor (WHEEL ! 0) \<noteq> 0"
  shows "getMaxStop WHEEL < getMaxStop WHEEL + 1"
proof -
  have "unat (weNextMultipleFactor (WHEEL ! 0)) \<noteq> 0"
    using assms by (simp add: unat_eq_0)
  then have "1 \<le> unat (weNextMultipleFactor (WHEEL ! 0))" by simp
  then have "(2 ^ 32 - 1) * 1 \<le> (2 ^ 32 - 1) * unat (weNextMultipleFactor (WHEEL ! 0))"
    by (intro mult_le_mono2)
  then have "unat (getMaxStop WHEEL) + unat (1 :: uint64_t) < 2 ^ 64"
    unfolding unat_getMaxStop by simp
  then have "unat (getMaxStop WHEEL + 1) = unat (getMaxStop WHEEL) + unat (1 :: uint64_t)"
    by (rule unat_add64)
  then show ?thesis
    by (simp add: word_less_nat_alt)
qed

text \<open>
  C2. \<open>getMaxFactor()\<close> is \<open>WHEEL[0].nextMultipleFactor\<close> and \<open>getMaxStop()\<close> is, as a number
  and without wrap-around, \<open>UINT64_MAX - UINT32_MAX * getMaxFactor()\<close>. Construction with
  \<open>stop = getMaxStop()\<close> and \<open>sieveSize \<le> 2^23\<close> yields the engine with that stop;
  construction with \<open>stop = getMaxStop() + 1\<close> throws \<open>primesieve_error\<close> (the factor of
  \<open>WHEEL[0]\<close> is not 0, so that \<open>getMaxStop() + 1\<close> exists in 64 bits), and so does
  construction with \<open>sieveSize > 2^23\<close>, whatever \<open>stop\<close> is.
\<close>

theorem constructor_bounds:
  assumes "WHEEL \<noteq> []"
  shows "getMaxFactor WHEEL = ucast (weNextMultipleFactor (WHEEL ! 0))
         \<and> unat (getMaxStop WHEEL)
             = (2 ^ 64 - 1) - (2 ^ 32 - 1) * unat (weNextMultipleFactor (WHEEL ! 0))
         \<and> (sieveSize \<le> 2 ^ 23 \<longrightarrow>
               WheelFactorization_new WHEEL (getMaxStop WHEEL) sieveSize
               = Inr \<lparr>wfStop = getMaxStop WHEEL\<rparr>)
         \<and> (weNextMultipleFactor (WHEEL ! 0) \<noteq> 0 \<longrightarrow>
               (\<exists>msg n. WheelFactorization_new WHEEL (getMaxStop WHEEL + 1) sieveSize
                          = Inl (primesieve_error msg n)))
         \<and> (sieveSize > 2 ^ 23 \<longrightarrow>
               (\<exists>msg n. WheelFactorization_new WHEEL stop sieveSize
                          = Inl (primesieve_error msg n)))"
proof (intro conjI impI)
  show "getMaxFactor WHEEL = ucast (weNextMultipleFactor (WHEEL ! 0))"
    by (simp add: getMaxFactor_def)
  show "unat (getMaxStop WHEEL)
        = (2 ^ 64 - 1) - (2 ^ 32 - 1) * unat (weNextMultipleFactor (WHEEL ! 0))"
    by (rule unat_getMaxStop)
  show "WheelFactorization_new WHEEL (getMaxStop WHEEL) sieveSize
        = Inr \<lparr>wfStop = getMaxStop WHEEL\<rparr>" if "sieveSize \<le> 2 ^ 23"
    using that by (simp add: WheelFactorization_new_def getMaxSieveSize_def Let_def not_less)
  show "\<exists>msg n. WheelFactorization_new WHEEL (getMaxStop WHEEL + 1) sieveSize
                  = Inl (primesieve_error msg n)"
    if "weNextMultipleFactor (WHEEL ! 0) \<noteq> 0"
    using getMaxStop_succ [OF that]
    by (simp add: WheelFactorization_new_def Let_def)
  show "\<exists>msg n. WheelFactorization_new WHEEL stop sieveSize = Inl (primesieve_error msg n)"
    if "sieveSize > 2 ^ 23"
    using that by (simp add: WheelFactorization_new_def getMaxSieveSize_def Let_def)
qed

text \<open>
  The witness takes a table whose first transition has the factor 6, so that
  \<open>getMaxStop() = 2^64 - 1 - 6 * (2^32 - 1) = 18446744047939747845\<close>, and the sieve
  sizes \<open>2^23\<close> and \<open>2^23 + 1\<close>.
\<close>

theorem constructor_bounds_witness:
  "[\<lparr>weUnsetBit = 0xFE, weNextMultipleFactor = 6, weCorrect = 1, weNext = 1\<rparr>] \<noteq> []
   \<and> (8388608 :: uint_t) \<le> 2 ^ 23 \<and> (8388609 :: uint_t) > 2 ^ 23
   \<and> weNextMultipleFactor
        ([\<lparr>weUnsetBit = 0xFE, weNextMultipleFactor = 6, weCorrect = 1, weNext = 1\<rparr>] ! 0) \<noteq> 0
   \<and> getMaxStop [\<lparr>weUnsetBit = 0xFE, weNextMultipleFactor = 6, weCorrect = 1, weNext = 1\<rparr>]
       = 18446744047939747845
   \<and> WheelFactorization_new
        [\<lparr>weUnsetBit = 0xFE, weNextMultipleFactor = 6, weCorrect = 1, weNext = 1\<rparr>]
        18446744047939747845 8388608
       = Inr \<lparr>wfStop = 18446744047939747845\<rparr>
   \<and> (\<exists>msg n. WheelFactorization_new
                 [\<lparr>weUnsetBit = 0xFE, weNextMultipleFactor = 6, weCorrect = 1, weNext = 1\<rparr>]
                 18446744047939747846 8388608
                = Inl (primesieve_error msg n))
   \<and> (\<exists>msg n. WheelFactorization_new
                 [\<lparr>weUnsetBit = 0xFE, weNextMultipleFactor = 6, weCorrect = 1, weNext = 1\<rparr>]
                 0 8388609
                = Inl (primesieve_error msg n))"
proof -
  let ?W = "[\<lparr>weUnsetBit = 0xFE, weNextMultipleFactor = 6, weCorrect = 1, weNext = 1 :: int8_t\<rparr>]"
  have a: "?W \<noteq> []" by simp
  have b: "(8388608 :: uint_t) \<le> 2 ^ 23" and c: "(8388609 :: uint_t) > 2 ^ 23"
    and d: "weNextMultipleFactor (?W ! 0) \<noteq> 0"
    by simp_all
  have e: "getMaxStop ?W = 18446744047939747845"
    by (simp add: getMaxStop_def getMaxFactor_def maxPrime_value)
  have f: "getMaxStop ?W + 1 = 18446744047939747846"
    unfolding e by simp
  note t = constructor_bounds [OF a, of 8388608 0]
  have "WheelFactorization_new ?W (getMaxStop ?W) 8388608 = Inr \<lparr>wfStop = getMaxStop ?W\<rparr>"
    using t b by blast
  then have g1: "WheelFactorization_new ?W 18446744047939747845 8388608
                 = Inr \<lparr>wfStop = 18446744047939747845\<rparr>"
    unfolding e .
  have "\<exists>msg n. WheelFactorization_new ?W (getMaxStop ?W + 1) 8388608
                  = Inl (primesieve_error msg n)"
    using t d by blast
  then have g2: "\<exists>msg n. WheelFactorization_new ?W 18446744047939747846 8388608
                          = Inl (primesieve_error msg n)"
    unfolding f .
  have g3: "\<exists>msg n. WheelFactorization_new ?W 0 8388609 = Inl (primesieve_error msg n)"
    using constructor_bounds [OF a, of 8388609 0] c by blast
  show ?thesis
    using a b c d e g1 g2 g3 by blast
qed

section \<open>The admission of a sieving prime\<close>

subsection \<open>The two outcomes of \<open>add\<close>\<close>

lemma init_index_in_range:
  assumes "MODULO \<noteq> 0" and "unat MODULO \<le> length INIT"
  shows "unat ((q :: uint64_t) mod ucast (MODULO :: uint_t)) < length INIT"
proof -
  have "0 < unat MODULO"
    using assms(1) by (simp add: unat_gt_0)
  then have "unat q mod unat MODULO < unat MODULO"
    by simp
  then show ?thesis
    using assms(2) by (simp add: unat_mod_distrib unat_ucast_32_64)
qed

lemma add_eq:
  assumes "prime \<noteq> 0" and "MODULO \<noteq> 0" and "unat MODULO \<le> length INIT"
  shows "add MODULO SIZE INIT eng sink prime segmentLow st
         = (if add_retires MODULO INIT eng prime segmentLow then Inr st
            else Inr (sink prime (add_multipleIndex MODULO INIT prime segmentLow)
                        (add_wheelIndex MODULO SIZE INIT prime segmentLow) st))"
  using assms(1,2) init_index_in_range [OF assms(2,3)]
  by (simp add: add_def Let_def add_retires_def add_multipleIndex_def add_wheelIndex_def
      add_multiple2_def add_entry_def add_multiple1_def add_quotient1_def add_multiple0_def
      add_quotient0_def)

subsection \<open>The first steps of \<open>add\<close> over the natural numbers\<close>

lemma unat_six64: "unat (6 :: uint64_t) = 6" by simp
lemma unat_one64: "unat (1 :: uint64_t) = 1" by simp

lemma unat_plus6:
  assumes "unat (segmentLow :: uint64_t) + 6 < 2 ^ 64"
  shows "unat (segmentLow + 6) = unat segmentLow + 6"
  using unat_add64 [of segmentLow 6] assms unfolding unat_six64 .

lemma unat_div_prime:
  "unat ((s :: uint64_t) div ucast (prime :: uint_t)) = unat s div unat prime"
  by (simp only: unat_div_distrib unat_ucast_32_64)

lemma unat_add_quotient0:
  assumes "unat segmentLow + 6 < 2 ^ 64"
    and "unat ((segmentLow + 6) div ucast prime) + 1 < 2 ^ 64"
  shows "unat (add_quotient0 prime segmentLow) = (unat segmentLow + 6) div unat prime + 1"
proof -
  have "unat ((segmentLow + 6) div ucast prime + 1)
        = unat ((segmentLow + 6) div ucast prime) + 1"
    using unat_add64 [of "(segmentLow + 6) div ucast prime" 1] assms(2) unfolding unat_one64 .
  then show ?thesis
    unfolding add_quotient0_def unat_div_prime unat_plus6 [OF assms(1)] .
qed

lemma unat_add_multiple0:
  assumes "unat segmentLow + 6 < 2 ^ 64"
    and "unat ((segmentLow + 6) div ucast prime) + 1 < 2 ^ 64"
    and "unat prime * unat (add_quotient0 prime segmentLow) < 2 ^ 64"
  shows "unat (add_multiple0 prime segmentLow)
         = unat prime * ((unat segmentLow + 6) div unat prime + 1)"
proof -
  have "unat (ucast prime * add_quotient0 prime segmentLow)
        = unat (ucast prime :: uint64_t) * unat (add_quotient0 prime segmentLow)"
    by (rule unat_mult64) (simp only: unat_ucast_32_64 assms(3))
  then show ?thesis
    unfolding add_multiple0_def unat_ucast_32_64 unat_add_quotient0 [OF assms(1,2)] .
qed

lemma next_multiple_above:
  assumes "0 < (p :: nat)"
  shows "s < p * (s div p + 1)" and "p * (s div p + 1) \<le> s + p"
    and "p dvd m \<Longrightarrow> s < m \<Longrightarrow> p * (s div p + 1) \<le> m"
proof -
  have eq: "p * (s div p + 1) = s - s mod p + p"
    by (simp add: algebra_simps minus_mod_eq_mult_div)
  have "s mod p < p" using assms by simp
  then show "s < p * (s div p + 1)" unfolding eq
    using mod_less_eq_dividend [of s p] by linarith
  show "p * (s div p + 1) \<le> s + p" unfolding eq by simp
  assume "p dvd m" and "s < m"
  then obtain k where m: "m = p * k" by (auto simp: dvd_def)
  have "s div p < k"
  proof (rule ccontr)
    assume "\<not> s div p < k"
    then have "k \<le> s div p" by simp
    then have "p * k \<le> p * (s div p)" by (rule mult_le_mono2)
    also have "\<dots> \<le> s" by simp
    finally show False using \<open>s < m\<close> m by simp
  qed
  then have "s div p + 1 \<le> k" by simp
  then have "p * (s div p + 1) \<le> p * k" by (rule mult_le_mono2)
  then show "p * (s div p + 1) \<le> m" unfolding m .
qed

lemma add_start_exact:
  assumes "prime \<noteq> 0" and "unat segmentLow + 6 + unat prime < 2 ^ 64"
  shows "unat segmentLow + 6 < 2 ^ 64"
    and "unat ((segmentLow + 6) div ucast prime) + 1 < 2 ^ 64"
    and "unat prime * unat (add_quotient0 prime segmentLow) < 2 ^ 64"
    and "unat (add_quotient0 prime segmentLow) = (unat segmentLow + 6) div unat prime + 1"
    and "unat (add_multiple0 prime segmentLow)
         = unat prime * ((unat segmentLow + 6) div unat prime + 1)"
proof -
  let ?S = "unat segmentLow + 6" and ?P = "unat prime"
  have P: "0 < ?P" using assms(1) by (simp add: unat_gt_0)
  show 1: "?S < 2 ^ 64" using assms(2) by simp
  have "?S div ?P \<le> ?S" by simp
  then have "?S div ?P + 1 < 2 ^ 64" using assms(2) P by linarith
  then show 2: "unat ((segmentLow + 6) div ucast prime) + 1 < 2 ^ 64"
    unfolding unat_div_prime unat_plus6 [OF 1] .
  show q: "unat (add_quotient0 prime segmentLow) = ?S div ?P + 1"
    by (rule unat_add_quotient0 [OF 1 2])
  have "?P * (?S div ?P + 1) \<le> ?S + ?P"
    by (rule next_multiple_above(2) [OF P])
  then show 3: "?P * unat (add_quotient0 prime segmentLow) < 2 ^ 64"
    unfolding q using assms(2) by linarith
  show "unat (add_multiple0 prime segmentLow) = ?P * (?S div ?P + 1)"
    by (rule unat_add_multiple0 [OF 1 2 3])
qed

lemma unat_isquare: "unat (isquare (ucast (prime :: uint_t))) = unat prime * unat prime"
proof -
  have "unat prime * unat prime \<le> (2 ^ 32 - 1) * (2 ^ 32 - 1)"
    by (intro mult_le_mono unat_prime_bound)
  then have "unat (ucast prime :: uint64_t) * unat (ucast prime :: uint64_t) < 2 ^ 64"
    unfolding unat_ucast_32_64 by simp
  then show ?thesis
    unfolding isquare_def by (simp only: unat_mult64 unat_ucast_32_64)
qed

subsection \<open>The table of the modulo 30 wheel and some runs of \<open>add\<close>\<close>

lemma spokes30: "spokes 30 = [1, 7, 11, 13, 17, 19, 23, 29]"
  by code_simp

lemma nextCoprime30:
  "map (nextCoprime 30) [0..<30]
   = [1, 0, 5, 4, 3, 2, 1, 0, 3, 2, 1, 0, 1, 0, 3, 2, 1, 0, 1, 0, 3, 2, 1, 0, 5, 4, 3, 2, 1, 0]"
  by code_simp

lemma wheel30Init_eq:
  "wheel30Init
   = map (\<lambda>(f, i). \<lparr>wiNextMultipleFactor = f, wiWheelIndex = i\<rparr>)
       [(1, 0), (0, 0), (5, 1), (4, 1), (3, 1), (2, 1), (1, 1), (0, 1), (3, 2), (2, 2),
        (1, 2), (0, 2), (1, 3), (0, 3), (3, 4), (2, 4), (1, 4), (0, 4), (1, 5), (0, 5),
        (3, 6), (2, 6), (1, 6), (0, 6), (5, 7), (4, 7), (3, 7), (2, 7), (1, 7), (0, 7)]"
  using nextCoprime30 unfolding wheel30Init_def upt30
  by (simp add: wheelInitEntry_def spokes30)

lemma length_wheel30Init: "length wheel30Init = 30"
  by (simp add: wheel30Init_def)

lemma add_7_0_start:
  "add_quotient0 7 0 = 1" "add_multiple0 7 0 = 7" "isquare 7 = 49"
  by (simp_all add: add_quotient0_def add_multiple0_def isquare_def)

lemma add_7_0_square: "add_quotient1 7 0 = 7" "add_multiple1 7 0 = 49"
  by (simp_all add: add_quotient1_def add_multiple1_def add_7_0_start)

lemma wheel30Init_7: "wheel30Init ! 7 = \<lparr>wiNextMultipleFactor = 0, wiWheelIndex = 1\<rparr>"
  by (simp add: wheel30Init_eq)

lemma add_7_0_entry:
  "add_entry 30 wheel30Init 7 0 = \<lparr>wiNextMultipleFactor = 0, wiWheelIndex = 1\<rparr>"
  by (simp add: add_entry_def add_7_0_square wheel30Init_7)

lemma add_7_0:
  "add_multiple0 7 0 = 7" "add_multiple2 30 wheel30Init 7 0 = 49"
  "add_multipleIndex 30 wheel30Init 7 0 = 1" "add_wheelIndex 30 8 wheel30Init 7 0 = 1"
proof -
  show "add_multiple0 7 0 = 7"
    by (rule add_7_0_start)
  show m2: "add_multiple2 30 wheel30Init 7 0 = 49"
    by (simp add: add_multiple2_def add_7_0_square add_7_0_entry)
  show "add_multipleIndex 30 wheel30Init 7 0 = 1"
    by (simp add: add_multipleIndex_def m2)
  have "wheelOffsets 8 ! 7 = 0"
    by (simp add: wheelOffsets_def)
  then show "add_wheelIndex 30 8 wheel30Init 7 0 = 1"
    by (simp add: add_wheelIndex_def add_7_0_entry)
qed

lemma wheel30Init_2: "wheel30Init ! 2 = \<lparr>wiNextMultipleFactor = 5, wiWheelIndex = 1\<rparr>"
  by (simp add: wheel30Init_eq)

lemma wheel30Init_11: "wheel30Init ! 11 = \<lparr>wiNextMultipleFactor = 0, wiWheelIndex = 2\<rparr>"
  by (simp add: wheel30Init_eq)

lemma wheelOffsets_11: "wheelOffsets 8 ! 11 = 8"
  by (simp add: wheelOffsets_def)

lemma add_11_1000_start:
  "add_quotient0 11 1000 = 92" "add_multiple0 11 1000 = 1012" "isquare 11 = 121"
  by (simp_all add: add_quotient0_def add_multiple0_def isquare_def)

lemma add_11_1000_square: "add_quotient1 11 1000 = 92" "add_multiple1 11 1000 = 1012"
  by (simp_all add: add_quotient1_def add_multiple1_def add_11_1000_start)

lemma add_11_1000_entry:
  "add_entry 30 wheel30Init 11 1000 = \<lparr>wiNextMultipleFactor = 5, wiWheelIndex = 1\<rparr>"
  by (simp add: add_entry_def add_11_1000_square wheel30Init_2)

lemma add_11_1000_multiple2: "add_multiple2 30 wheel30Init 11 1000 = 1067"
  by (simp add: add_multiple2_def add_11_1000_square add_11_1000_entry)

lemma add_11_1000_indexes:
  "add_multipleIndex 30 wheel30Init 11 1000 = 2" "add_wheelIndex 30 8 wheel30Init 11 1000 = 9"
  by (simp_all add: add_multipleIndex_def add_wheelIndex_def add_11_1000_multiple2
      add_11_1000_entry wheelOffsets_11)

lemma add_maxprime_start:
  "add_quotient0 4294967291 0 = 1" "add_multiple0 4294967291 0 = 4294967291"
  "isquare 4294967291 = 18446744030759878681"
  by (simp_all add: add_quotient0_def add_multiple0_def isquare_def)

lemma add_maxprime_square:
  "add_quotient1 4294967291 0 = 4294967291"
  "add_multiple1 4294967291 0 = 18446744030759878681"
  by (simp_all add: add_quotient1_def add_multiple1_def add_maxprime_start)

lemma add_maxprime_entry:
  "add_entry 30 wheel30Init 4294967291 0 = \<lparr>wiNextMultipleFactor = 0, wiWheelIndex = 2\<rparr>"
  by (simp add: add_entry_def add_maxprime_square wheel30Init_11)

lemma add_maxprime_multiple2:
  "add_multiple2 30 wheel30Init 4294967291 0 = 18446744030759878681"
  by (simp add: add_multiple2_def add_maxprime_square add_maxprime_entry)

lemma add_11_1000_stored:
  "\<not> add_retires 30 wheel30Init \<lparr>wfStop = 18446744047939747845\<rparr> 11 1000"
  by (simp add: add_retires_def add_11_1000_start add_11_1000_multiple2)

lemma add_maxprime_stored:
  "\<not> add_retires 30 wheel30Init \<lparr>wfStop = 18446744047939747845\<rparr> 4294967291 0"
  by (simp add: add_retires_def add_maxprime_start add_maxprime_multiple2)

lemma add_11_1000_exact:
  "add_exact 30 wheel30Init \<lparr>wfStop = 18446744047939747845\<rparr> 11 1000"
  by (simp add: add_exact_def add_11_1000_start add_11_1000_square add_11_1000_entry
      add_11_1000_multiple2)

lemma add_maxprime_exact:
  "add_exact 30 wheel30Init \<lparr>wfStop = 18446744047939747845\<rparr> 4294967291 0"
  by (simp add: add_exact_def add_maxprime_start add_maxprime_square add_maxprime_entry
      add_maxprime_multiple2)


subsection \<open>What the storage sink receives\<close>

lemma prime_div_30: "prime \<noteq> 0 \<Longrightarrow> prime div 30 \<noteq> prime" for prime :: uint_t
proof
  assume "prime \<noteq> 0" and "prime div 30 = prime"
  then have "unat (prime div 30) = unat prime" "0 < unat prime"
    by (simp_all add: unat_gt_0)
  then have "unat prime div 30 = unat prime" "0 < unat prime"
    by (simp_all add: unat_div_distrib)
  then show False by simp
qed

text \<open>
  C1, as the claim words it, fails. With the modulo 30 wheel and \<open>stop_ = 1000\<close>,
  \<open>add(7, 0)\<close> calls the sink once, with the arguments \<open>(7, 1, 1)\<close>: the first one is the
  prime 7, whereas \<open>7 / 30\<close> is 0.
\<close>

theorem add_first_argument_counterexample:
  "add 30 8 wheel30Init \<lparr>wfStop = 1000\<rparr> record_call 7 0 [] = Inr [(7, 1, 1)]
   \<and> (7 :: uint_t) div 30 = 0 \<and> (7 :: uint_t) \<noteq> 0"
  by (simp add: add_def Let_def isquare_def wheel30Init_eq wheelOffsets_def record_call_def)

text \<open>
  C1, amended. For every prime and \<open>segmentLow\<close> for which \<open>add\<close> produces a record, the
  first argument handed to the storage sink is the prime itself, not divided by 30 (the
  two differ for every prime), together with the \<open>multipleIndex\<close> and the \<open>wheelIndex\<close>
  that \<open>add\<close> has computed; a sink that records its calls has received this one call
  more.
\<close>

theorem add_hands_prime:
  assumes "prime \<noteq> 0" and "MODULO \<noteq> 0" and "unat MODULO \<le> length INIT"
    and "\<not> add_retires MODULO INIT eng prime segmentLow"
  shows "add MODULO SIZE INIT eng sink prime segmentLow st
         = Inr (sink prime (add_multipleIndex MODULO INIT prime segmentLow)
                  (add_wheelIndex MODULO SIZE INIT prime segmentLow) st)
         \<and> add MODULO SIZE INIT eng record_call prime segmentLow calls
           = Inr (calls @ [(prime, add_multipleIndex MODULO INIT prime segmentLow,
                            add_wheelIndex MODULO SIZE INIT prime segmentLow)])
         \<and> prime div 30 \<noteq> prime"
  using assms(4) prime_div_30 [OF assms(1)]
  by (simp add: add_eq [OF assms(1,2,3)] record_call_def)


theorem add_hands_prime_witness:
  "(7 :: uint_t) \<noteq> 0 \<and> (30 :: uint_t) \<noteq> 0 \<and> unat (30 :: uint_t) \<le> length wheel30Init
   \<and> \<not> add_retires 30 wheel30Init \<lparr>wfStop = 1000\<rparr> 7 0
   \<and> add 30 8 wheel30Init \<lparr>wfStop = 1000\<rparr> record_call 7 0 [] = Inr [(7, 1, 1)]"
proof -
  have a: "(7 :: uint_t) \<noteq> 0" and b: "(30 :: uint_t) \<noteq> 0"
    and c: "unat (30 :: uint_t) \<le> length wheel30Init"
    by (simp_all add: length_wheel30Init)
  have d: "\<not> add_retires 30 wheel30Init \<lparr>wfStop = 1000\<rparr> 7 0"
    by (simp add: add_retires_def add_7_0)
  show ?thesis
    using a b c d add_hands_prime [OF a b c d, of 8 record_call "[]" "[]"]
    by (simp add: add_7_0 record_call_def)
qed

subsection \<open>Retiring or storing\<close>

lemma add_multiple0_least:
  assumes "prime \<noteq> 0" and "unat segmentLow + 6 + unat prime < 2 ^ 64"
  shows "unat prime dvd unat (add_multiple0 prime segmentLow)"
    and "unat segmentLow + 6 < unat (add_multiple0 prime segmentLow)"
    and "\<forall>m. unat prime dvd m \<and> unat segmentLow + 6 < m
             \<longrightarrow> unat (add_multiple0 prime segmentLow) \<le> m"
proof -
  have P: "0 < unat prime" using assms(1) by (simp add: unat_gt_0)
  note m0 = add_start_exact(5) [OF assms]
  show "unat prime dvd unat (add_multiple0 prime segmentLow)"
    unfolding m0 by simp
  show "unat segmentLow + 6 < unat (add_multiple0 prime segmentLow)"
    unfolding m0 by (rule next_multiple_above(1) [OF P])
  show "\<forall>m. unat prime dvd m \<and> unat segmentLow + 6 < m
             \<longrightarrow> unat (add_multiple0 prime segmentLow) \<le> m"
    unfolding m0 using next_multiple_above(3) [OF P] by blast
qed

lemma add_7_0_stop5: "add_retires 30 wheel30Init \<lparr>wfStop = 5\<rparr> 7 0"
  by (simp add: add_retires_def add_7_0)

lemma add_7_0_stop1000: "\<not> add_retires 30 wheel30Init \<lparr>wfStop = 1000\<rparr> 7 0"
  by (simp add: add_retires_def add_7_0)

text \<open>
  C7. For every prime other than 0 and every \<open>segmentLow\<close>, with a modulus other than 0
  and an \<open>INIT\<close> table of at least \<open>MODULO\<close> entries, \<open>add\<close> raises nothing. It returns
  before the call of the sink, leaving the state of the sink as it is, exactly when
  \<open>multiple\<close> exceeds \<open>stop_\<close> after its first assignment or after the wheel correction;
  otherwise it calls the sink exactly once, and a sink that records its calls has
  received one call more. Whenever \<open>segmentLow + 6 + prime\<close> is below \<open>2^64\<close>, the first
  value of \<open>multiple\<close> is the first multiple of the prime greater than \<open>segmentLow + 6\<close>.
\<close>

theorem add_retires_or_stores:
  assumes "prime \<noteq> 0" and "MODULO \<noteq> 0" and "unat MODULO \<le> length INIT"
  shows "(add_retires MODULO INIT eng prime segmentLow
            \<longleftrightarrow> wfStop eng < add_multiple0 prime segmentLow
                \<or> wfStop eng < add_multiple2 MODULO INIT prime segmentLow)
         \<and> add MODULO SIZE INIT eng sink prime segmentLow st
             = (if add_retires MODULO INIT eng prime segmentLow then Inr st
                else Inr (sink prime (add_multipleIndex MODULO INIT prime segmentLow)
                            (add_wheelIndex MODULO SIZE INIT prime segmentLow) st))
         \<and> add MODULO SIZE INIT eng record_call prime segmentLow calls
             = Inr (calls @ (if add_retires MODULO INIT eng prime segmentLow then []
                             else [(prime, add_multipleIndex MODULO INIT prime segmentLow,
                                    add_wheelIndex MODULO SIZE INIT prime segmentLow)]))
         \<and> (unat segmentLow + 6 + unat prime < 2 ^ 64 \<longrightarrow>
               unat prime dvd unat (add_multiple0 prime segmentLow)
               \<and> unat segmentLow + 6 < unat (add_multiple0 prime segmentLow)
               \<and> (\<forall>m. unat prime dvd m \<and> unat segmentLow + 6 < m
                        \<longrightarrow> unat (add_multiple0 prime segmentLow) \<le> m))"
proof (intro conjI impI)
  show "add_retires MODULO INIT eng prime segmentLow
          \<longleftrightarrow> wfStop eng < add_multiple0 prime segmentLow
              \<or> wfStop eng < add_multiple2 MODULO INIT prime segmentLow"
    by (simp add: add_retires_def)
  show "add MODULO SIZE INIT eng sink prime segmentLow st
          = (if add_retires MODULO INIT eng prime segmentLow then Inr st
             else Inr (sink prime (add_multipleIndex MODULO INIT prime segmentLow)
                         (add_wheelIndex MODULO SIZE INIT prime segmentLow) st))"
    by (rule add_eq [OF assms])
  show "add MODULO SIZE INIT eng record_call prime segmentLow calls
          = Inr (calls @ (if add_retires MODULO INIT eng prime segmentLow then []
                          else [(prime, add_multipleIndex MODULO INIT prime segmentLow,
                                 add_wheelIndex MODULO SIZE INIT prime segmentLow)]))"
    by (simp add: add_eq [OF assms] record_call_def)
next
  assume "unat segmentLow + 6 + unat prime < 2 ^ 64"
  note l = add_multiple0_least [OF assms(1) this]
  show "unat prime dvd unat (add_multiple0 prime segmentLow)" by (rule l(1))
  show "unat segmentLow + 6 < unat (add_multiple0 prime segmentLow)" by (rule l(2))
  show "\<forall>m. unat prime dvd m \<and> unat segmentLow + 6 < m
             \<longrightarrow> unat (add_multiple0 prime segmentLow) \<le> m" by (rule l(3))
qed

text \<open>
  The witness admits the prime 7 at \<open>segmentLow = 0\<close> twice: with \<open>stop_ = 1000\<close> the sink
  is called once, with \<open>stop_ = 5\<close> the prime is retired.
\<close>

theorem add_retires_or_stores_witness:
  "(7 :: uint_t) \<noteq> 0 \<and> (30 :: uint_t) \<noteq> 0 \<and> unat (30 :: uint_t) \<le> length wheel30Init
   \<and> unat (0 :: uint64_t) + 6 + unat (7 :: uint_t) < 2 ^ 64
   \<and> add 30 8 wheel30Init \<lparr>wfStop = 1000\<rparr> record_call 7 0 [] = Inr [(7, 1, 1)]
   \<and> add 30 8 wheel30Init \<lparr>wfStop = 5\<rparr> record_call 7 0 [] = Inr []
   \<and> unat (add_multiple0 7 0) = 7 \<and> (7 :: nat) dvd 7 \<and> (6 :: nat) < 7"
proof -
  have a: "(7 :: uint_t) \<noteq> 0" and b: "(30 :: uint_t) \<noteq> 0"
    and c: "unat (30 :: uint_t) \<le> length wheel30Init"
    and d: "unat (0 :: uint64_t) + 6 + unat (7 :: uint_t) < 2 ^ 64"
    by (simp_all add: length_wheel30Init)
  show ?thesis
    using a b c d
      add_retires_or_stores [OF a b c, of "\<lparr>wfStop = 1000\<rparr>" 0 8 record_call "[]" "[]"]
      add_retires_or_stores [OF a b c, of "\<lparr>wfStop = 5\<rparr>" 0 8 record_call "[]" "[]"]
    by (simp add: add_7_0 add_7_0_stop5 add_7_0_stop1000 record_call_def)
qed

subsection \<open>No wrap-around below the largest stop\<close>

lemma constructed_stop:
  assumes "WheelFactorization_new WHEEL stop sieveSize = Inr eng"
  shows "unat (wfStop eng)
         \<le> (2 ^ 64 - 1) - (2 ^ 32 - 1) * unat (weNextMultipleFactor (WHEEL ! 0))"
proof -
  have "wfStop eng \<le> getMaxStop WHEEL"
    using assms
    by (auto simp: WheelFactorization_new_def Let_def not_less split: if_splits)
  then show ?thesis
    by (simp only: word_le_nat_alt unat_getMaxStop)
qed

lemma tables_ok_maxFactor:
  assumes "tables_ok MODULO INIT WHEEL"
  shows "2 \<le> unat (weNextMultipleFactor (WHEEL ! 0))"
proof -
  have "2 \<le> getMaxFactor WHEEL"
    using assms by (simp add: tables_ok_def)
  then have "unat (2 :: uint_t) \<le> unat (getMaxFactor WHEEL)"
    by (simp only: word_le_nat_alt)
  then show ?thesis
    by (simp add: unat_getMaxFactor)
qed

lemma tables_ok_factor:
  assumes "tables_ok MODULO INIT WHEEL" and "r < unat MODULO"
  shows "unat (wiNextMultipleFactor (INIT ! r)) \<le> unat (weNextMultipleFactor (WHEEL ! 0))"
proof -
  have "(ucast (wiNextMultipleFactor (INIT ! r)) :: uint_t) \<le> getMaxFactor WHEEL"
    using assms by (simp add: tables_ok_def)
  then have "unat (ucast (wiNextMultipleFactor (INIT ! r)) :: uint_t)
             \<le> unat (getMaxFactor WHEEL)"
    by (simp only: word_le_nat_alt)
  then show ?thesis
    by (simp only: unat_ucast_8_32 unat_getMaxFactor)
qed

lemma tables_ok_least:
  assumes "tables_ok MODULO INIT WHEEL" and "r < unat MODULO"
    and "coprime (r + k) (unat MODULO)"
  shows "unat (wiNextMultipleFactor (INIT ! r)) \<le> k"
proof (rule ccontr)
  assume "\<not> unat (wiNextMultipleFactor (INIT ! r)) \<le> k"
  then have "k < unat (wiNextMultipleFactor (INIT ! r))" by simp
  then have "\<not> coprime (r + k) (unat MODULO)"
    using assms(1,2) by (simp add: tables_ok_def)
  then show False using assms(3) by simp
qed

lemma square_factor_bound:
  assumes "tables_ok MODULO INIT WHEEL" and "MODULO \<noteq> 0"
    and "coprime (2 ^ 32 + 1) (unat MODULO)"
  shows "unat (prime :: uint_t)
         + unat (wiNextMultipleFactor (INIT ! (unat prime mod unat MODULO))) \<le> 2 ^ 32 + 1"
proof -
  let ?M = "unat MODULO" and ?P = "unat prime"
  have M: "?M \<noteq> 0" using assms(2) by (simp add: unat_eq_0)
  have P: "?P \<le> 2 ^ 32 - 1" by (rule unat_prime_bound)
  define k where "k = 2 ^ 32 + 1 - ?P"
  have Pk: "?P + k = 2 ^ 32 + 1" using P by (simp add: k_def)
  have "(?P mod ?M + k) mod ?M = (?P + k) mod ?M"
    by (simp add: mod_add_left_eq)
  then have "coprime ((?P mod ?M + k) mod ?M) ?M"
    unfolding Pk using assms(3) M by (simp add: coprime_mod_left_iff)
  then have "coprime (?P mod ?M + k) ?M"
    by (rule coprime_mod_left_iff [OF M, THEN iffD1])
  moreover have "?P mod ?M < ?M" using M by simp
  ultimately have "unat (wiNextMultipleFactor (INIT ! (?P mod ?M))) \<le> k"
    by (rule tables_ok_least [OF assms(1), rotated])
  then show ?thesis using Pk by linarith
qed

lemma square_plus_jump:
  assumes "p \<le> 2 ^ 32 - 1" and "p + f \<le> 2 ^ 32 + 1"
  shows "p * p + p * f < (2 :: nat) ^ 64"
proof -
  have "p * (p + f) \<le> (2 ^ 32 - 1) * (2 ^ 32 + 1)"
    using assms by (intro mult_le_mono)
  then show ?thesis by (simp add: add_mult_distrib2)
qed

lemma multiple_plus_jump:
  assumes "m \<le> (2 ^ 64 - 1) - (2 ^ 32 - 1) * F" and "p \<le> 2 ^ 32 - 1" and "f \<le> F"
    and "F \<le> 255"
  shows "m + p * f < (2 :: nat) ^ 64"
proof -
  have "p * f \<le> (2 ^ 32 - 1) * F"
    using assms(2,3) by (intro mult_le_mono)
  moreover have "(2 ^ 32 - 1) * F \<le> (2 ^ 32 - 1) * (255 :: nat)"
    using assms(4) by (intro mult_le_mono2)
  ultimately show ?thesis using assms(1) by simp
qed

lemma start_below_wrap:
  assumes "s \<le> (2 ^ 64 - 1) - (2 ^ 32 - 1) * F" and "2 \<le> F" and "p \<le> 2 ^ 32 - 1"
  shows "s + 6 + p < (2 :: nat) ^ 64"
proof -
  have "(2 ^ 32 - 1) * 2 \<le> (2 ^ 32 - 1) * F"
    using assms(2) by (intro mult_le_mono2)
  then show ?thesis using assms(1,3) by simp
qed

lemma small_product: "unat (prime :: uint_t) * unat (f :: uint8_t) < 2 ^ 64"
proof -
  have "unat prime * unat f \<le> (2 ^ 32 - 1) * 255"
    by (intro mult_le_mono unat_prime_bound unat_factor_bound)
  then show ?thesis by simp
qed

lemma small_square: "unat (prime :: uint_t) * unat prime < 2 ^ 64"
proof -
  have "unat prime * unat prime \<le> (2 ^ 32 - 1) * (2 ^ 32 - 1)"
    by (intro mult_le_mono unat_prime_bound)
  then show ?thesis by simp
qed

lemma unat_jump:
  "unat (ucast (prime :: uint_t) * ucast (f :: uint8_t) :: uint64_t) = unat prime * unat f"
proof -
  have "unat (ucast prime :: uint64_t) * unat (ucast f :: uint64_t) < 2 ^ 64"
    unfolding unat_ucast_32_64 unat_ucast_8_64 by (rule small_product)
  then show ?thesis
    by (simp only: unat_mult64 unat_ucast_32_64 unat_ucast_8_64)
qed

lemma unat_add_multiple2:
  assumes "unat (add_multiple1 prime segmentLow)
           + unat prime * unat (wiNextMultipleFactor (add_entry MODULO INIT prime segmentLow))
           < 2 ^ 64"
  shows "unat (add_multiple2 MODULO INIT prime segmentLow)
         = unat (add_multiple1 prime segmentLow)
           + unat prime * unat (wiNextMultipleFactor (add_entry MODULO INIT prime segmentLow))"
proof -
  let ?j = "ucast prime * ucast (wiNextMultipleFactor (add_entry MODULO INIT prime segmentLow))
            :: uint64_t"
  have "unat (add_multiple1 prime segmentLow) + unat ?j < 2 ^ 64"
    unfolding unat_jump by (rule assms)
  then have "unat (add_multiple1 prime segmentLow + ?j)
             = unat (add_multiple1 prime segmentLow) + unat ?j"
    by (rule unat_add64)
  then show ?thesis
    unfolding add_multiple2_def unat_jump .
qed

lemma add_entry_square:
  assumes "add_multiple0 prime segmentLow < isquare (ucast prime)"
  shows "add_entry MODULO INIT prime segmentLow = INIT ! (unat prime mod unat MODULO)"
    and "unat (add_multiple1 prime segmentLow) = unat prime * unat prime"
    and "unat (add_quotient1 prime segmentLow) = unat prime"
  using assms
  by (simp_all add: add_entry_def add_quotient1_def add_multiple1_def unat_mod_distrib
      unat_ucast_32_64 unat_isquare)

lemma add_entry_no_square:
  assumes "\<not> add_multiple0 prime segmentLow < isquare (ucast prime)"
  shows "add_entry MODULO INIT prime segmentLow
         = INIT ! (unat (add_quotient0 prime segmentLow) mod unat MODULO)"
    and "add_multiple1 prime segmentLow = add_multiple0 prime segmentLow"
    and "add_quotient1 prime segmentLow = add_quotient0 prime segmentLow"
  using assms
  by (simp_all add: add_entry_def add_quotient1_def add_multiple1_def unat_mod_distrib
      unat_ucast_32_64)

lemma add_multiple1_ge: "unat (add_multiple0 prime segmentLow) \<le> unat (add_multiple1 prime segmentLow)"
  by (simp add: add_multiple1_def word_less_nat_alt)

lemma tables_ok_wheel30:
  "tables_ok 30 wheel30Init
     [\<lparr>weUnsetBit = 0xFE, weNextMultipleFactor = 6, weCorrect = 1, weNext = 1\<rparr>]"
  unfolding wheel30Init_eq by code_simp

lemma coprime_wrap_30: "coprime (2 ^ 32 + 1) (unat (30 :: uint_t))"
proof -
  have "coprime (17 :: nat) 30" by code_simp
  moreover have "(2 ^ 32 + 1) mod 30 = (17 :: nat)" by simp
  ultimately have "coprime ((2 ^ 32 + 1) mod 30) (30 :: nat)" by simp
  then have "coprime (2 ^ 32 + 1) (30 :: nat)"
    by (rule coprime_mod_left_iff [THEN iffD1, rotated]) simp
  then show ?thesis by simp
qed

text \<open>
  C8. For every engine that the constructor has built, so that \<open>stop_ \<le> getMaxStop()\<close>,
  every prime (a \<open>uint_t\<close>, hence at most \<open>2^32 - 1\<close>; 0 is no prime) and every
  \<open>segmentLow \<le> stop_\<close>, no 64-bit operation of \<open>add\<close> wraps around: not \<open>segmentLow + 6\<close>,
  not the quotient plus one, not \<open>prime * quotient\<close>, not the square, not the addition
  \<open>multiple + prime * INIT[quotient % MODULO].nextMultipleFactor\<close> nor its product, and
  the subtraction \<open>multiple - segmentLow\<close> does not go below zero. The tables are
  as the specification describes them (\<open>tables_ok\<close>), and \<open>2^32 + 1\<close> has no factor in
  common with the modulus, which holds for 30 and for 210.
\<close>

theorem add_arithmetic_exact:
  assumes "WheelFactorization_new WHEEL stop sieveSize = Inr eng"
    and "prime \<noteq> 0" and "segmentLow \<le> wfStop eng"
    and "MODULO \<noteq> 0" and "tables_ok MODULO INIT WHEEL"
    and "coprime (2 ^ 32 + 1) (unat MODULO)"
  shows "add_exact MODULO INIT eng prime segmentLow"
proof -
  let ?F = "unat (weNextMultipleFactor (WHEEL ! 0))"
  let ?P = "unat prime" and ?S = "unat segmentLow + 6" and ?M = "unat MODULO"
  let ?f = "unat (wiNextMultipleFactor (add_entry MODULO INIT prime segmentLow))"
  have M: "0 < ?M" using assms(4) by (simp add: unat_gt_0)
  have stop: "unat (wfStop eng) \<le> (2 ^ 64 - 1) - (2 ^ 32 - 1) * ?F"
    by (rule constructed_stop [OF assms(1)])
  have F2: "2 \<le> ?F" by (rule tables_ok_maxFactor [OF assms(5)])
  have F255: "?F \<le> 255" by (rule unat_factor_bound)
  have "unat segmentLow \<le> unat (wfStop eng)"
    using assms(3) by (simp only: word_le_nat_alt)
  then have "unat segmentLow \<le> (2 ^ 64 - 1) - (2 ^ 32 - 1) * ?F"
    using stop by (rule le_trans)
  then have start: "unat segmentLow + 6 + ?P < 2 ^ 64"
    using F2 unat_prime_bound by (rule start_below_wrap)
  note st = add_start_exact [OF assms(2) start]
  have above: "?S < unat (add_multiple0 prime segmentLow)"
    by (rule add_multiple0_least(2) [OF assms(2) start])
  have tail: "unat prime * unat prime < 2 ^ 64 \<and> ?P * ?f < 2 ^ 64
      \<and> unat (add_multiple1 prime segmentLow) + ?P * ?f < 2 ^ 64
      \<and> (add_multiple2 MODULO INIT prime segmentLow > wfStop eng
          \<or> unat (segmentLow + 6) \<le> unat (add_multiple2 MODULO INIT prime segmentLow))"
    if "\<not> add_multiple0 prime segmentLow > wfStop eng"
  proof -
    have m0: "unat (add_multiple0 prime segmentLow) \<le> (2 ^ 64 - 1) - (2 ^ 32 - 1) * ?F"
      using that stop by (simp add: word_less_nat_alt)
    have sum: "unat (add_multiple1 prime segmentLow) + ?P * ?f < 2 ^ 64"
    proof (cases "add_multiple0 prime segmentLow < isquare (ucast prime)")
      case True
      note sq = add_entry_square [OF True]
      have "?P + unat (wiNextMultipleFactor (INIT ! (?P mod ?M))) \<le> 2 ^ 32 + 1"
        by (rule square_factor_bound [OF assms(5,4,6)])
      then have "?P * ?P + ?P * unat (wiNextMultipleFactor (INIT ! (?P mod ?M))) < 2 ^ 64"
        by (rule square_plus_jump [OF unat_prime_bound])
      then show ?thesis
        unfolding sq .
    next
      case False
      note ns = add_entry_no_square [OF False]
      have "unat (add_quotient0 prime segmentLow) mod ?M < ?M"
        using M by simp
      then have "unat (wiNextMultipleFactor
                   (INIT ! (unat (add_quotient0 prime segmentLow) mod ?M))) \<le> ?F"
        by (rule tables_ok_factor [OF assms(5)])
      then have "unat (add_multiple0 prime segmentLow)
                 + ?P * unat (wiNextMultipleFactor
                     (INIT ! (unat (add_quotient0 prime segmentLow) mod ?M))) < 2 ^ 64"
        using F255 by (intro multiple_plus_jump [OF m0 unat_prime_bound])
      then show ?thesis
        unfolding ns .
    qed
    have "unat (add_multiple2 MODULO INIT prime segmentLow)
          = unat (add_multiple1 prime segmentLow) + ?P * ?f"
      by (rule unat_add_multiple2 [OF sum])
    then have "?S \<le> unat (add_multiple2 MODULO INIT prime segmentLow)"
      using above add_multiple1_ge [of prime segmentLow] by linarith
    then have "unat (segmentLow + 6) \<le> unat (add_multiple2 MODULO INIT prime segmentLow)"
      by (simp only: unat_plus6 [OF st(1)])
    then show ?thesis
      using sum small_square [of prime] small_product [of prime] by blast
  qed
  show ?thesis
    unfolding add_exact_def using st(1,2,3) tail by blast
qed

text \<open>
  The witness takes the modulo 30 wheel with \<open>stop_ = getMaxStop()\<close> for the factor 6 and
  two admissions that pass both comparisons, so that every operation is performed. The
  largest prime below \<open>2^32\<close> at \<open>segmentLow = 0\<close> is raised to its square,
  \<open>18446744030759878681\<close>, to which the table adds nothing. The prime 11 at
  \<open>segmentLow = 1000\<close> starts from \<open>1012 = 11 * 92\<close>, beyond its square, and the addition
  \<open>multiple + prime * INIT[quotient % MODULO].nextMultipleFactor\<close> is \<open>1012 + 11 * 5 = 1067\<close>.
\<close>

theorem add_arithmetic_exact_witness:
  "WheelFactorization_new
     [\<lparr>weUnsetBit = 0xFE, weNextMultipleFactor = 6, weCorrect = 1, weNext = 1\<rparr>]
     18446744047939747845 8388608
   = Inr \<lparr>wfStop = 18446744047939747845\<rparr>
   \<and> (4294967291 :: uint_t) \<noteq> 0 \<and> (11 :: uint_t) \<noteq> 0
   \<and> (0 :: uint64_t) \<le> wfStop \<lparr>wfStop = 18446744047939747845\<rparr>
   \<and> (1000 :: uint64_t) \<le> wfStop \<lparr>wfStop = 18446744047939747845\<rparr>
   \<and> (30 :: uint_t) \<noteq> 0
   \<and> tables_ok 30 wheel30Init
        [\<lparr>weUnsetBit = 0xFE, weNextMultipleFactor = 6, weCorrect = 1, weNext = 1\<rparr>]
   \<and> coprime (2 ^ 32 + 1) (unat (30 :: uint_t))
   \<and> \<not> add_retires 30 wheel30Init \<lparr>wfStop = 18446744047939747845\<rparr> 4294967291 0
   \<and> add_multiple0 4294967291 0 = 4294967291
   \<and> add_multiple1 4294967291 0 = 18446744030759878681
   \<and> add_multiple2 30 wheel30Init 4294967291 0 = 18446744030759878681
   \<and> add_exact 30 wheel30Init \<lparr>wfStop = 18446744047939747845\<rparr> 4294967291 0
   \<and> \<not> add_retires 30 wheel30Init \<lparr>wfStop = 18446744047939747845\<rparr> 11 1000
   \<and> add_multiple1 11 1000 = 1012
   \<and> wiNextMultipleFactor (add_entry 30 wheel30Init 11 1000) = 5
   \<and> add_multiple2 30 wheel30Init 11 1000 = 1067
   \<and> add_exact 30 wheel30Init \<lparr>wfStop = 18446744047939747845\<rparr> 11 1000"
proof -
  let ?W = "[\<lparr>weUnsetBit = 0xFE, weNextMultipleFactor = 6, weCorrect = 1, weNext = 1 :: int8_t\<rparr>]"
  let ?E = "\<lparr>wfStop = 18446744047939747845\<rparr>"
  have a: "WheelFactorization_new ?W 18446744047939747845 8388608 = Inr ?E"
    by (simp add: WheelFactorization_new_def getMaxSieveSize_def getMaxStop_def
        getMaxFactor_def maxPrime_value Let_def)
  have b: "(4294967291 :: uint_t) \<noteq> 0" and b': "(11 :: uint_t) \<noteq> 0"
    and c: "(0 :: uint64_t) \<le> wfStop ?E" and c': "(1000 :: uint64_t) \<le> wfStop ?E"
    and d: "(30 :: uint_t) \<noteq> 0"
    by simp_all
  have e: "wiNextMultipleFactor (add_entry 30 wheel30Init 11 1000) = 5"
    by (simp add: add_11_1000_entry)
  show ?thesis
    using a b b' c c' d tables_ok_wheel30 coprime_wrap_30
      add_maxprime_stored add_maxprime_start(2) add_maxprime_square(2) add_maxprime_multiple2
      add_11_1000_stored add_11_1000_square(2) e add_11_1000_multiple2
      add_arithmetic_exact [OF a b c d tables_ok_wheel30 coprime_wrap_30]
      add_arithmetic_exact [OF a b' c' d tables_ok_wheel30 coprime_wrap_30]
    by blast
qed

subsection \<open>The stored indexes and the steps of the specification\<close>

lemma ucast_as_of_nat_64_32: "(ucast (x :: uint64_t) :: uint_t) = of_nat (unat x)"
  by (simp add: of_nat_unat)

lemma wheelIndex_as_of_nat:
  "(a :: uint_t) + ucast (b :: uint8_t) = of_nat (unat a + unat b)"
  by (simp add: of_nat_unat)

lemma unat_add_multipleIndex:
  assumes "unat segmentLow + 6 < 2 ^ 64"
    and "unat (segmentLow + 6) \<le> unat (add_multiple2 MODULO INIT prime segmentLow)"
  shows "add_multipleIndex MODULO INIT prime segmentLow
         = of_nat ((unat (add_multiple2 MODULO INIT prime segmentLow) - unat segmentLow - 6)
                   div 30)"
proof -
  let ?m = "add_multiple2 MODULO INIT prime segmentLow"
  have "segmentLow + 6 \<le> ?m"
    using assms(2) by (simp only: word_le_nat_alt)
  then have "unat (?m - (segmentLow + 6)) = unat ?m - unat (segmentLow + 6)"
    by (rule unat_sub)
  then have "unat (?m - (segmentLow + 6)) = unat ?m - unat segmentLow - 6"
    unfolding unat_plus6 [OF assms(1)] by simp
  then have "unat ((?m - (segmentLow + 6)) div 30) = (unat ?m - unat segmentLow - 6) div 30"
    by (simp add: unat_div_distrib)
  then show ?thesis
    unfolding add_multipleIndex_def ucast_as_of_nat_64_32 by (rule arg_cong)
qed

lemma add_square_values:
  assumes "unat (add_multiple0 prime segmentLow) = m" and "unat (add_quotient0 prime segmentLow) = q"
  shows "unat (add_multiple1 prime segmentLow)
         = (if m < unat prime * unat prime then unat prime * unat prime else m)"
    and "unat (add_quotient1 prime segmentLow) = (if m < unat prime * unat prime then unat prime else q)"
    and "add_entry MODULO INIT prime segmentLow
         = INIT ! ((if m < unat prime * unat prime then unat prime else q) mod unat MODULO)"
  using assms
  by (simp_all add: add_multiple1_def add_quotient1_def add_entry_def word_less_nat_alt
      unat_isquare unat_ucast_32_64 unat_mod_distrib)

lemma add_refines_admit_spec:
  assumes "prime \<noteq> 0" and "MODULO \<noteq> 0" and "unat MODULO \<le> length INIT"
    and "add_exact MODULO INIT eng prime segmentLow"
  shows "add MODULO SIZE INIT eng sink prime segmentLow st
         = (case admit_spec (unat MODULO)
                   (\<lambda>r. unat (wiNextMultipleFactor (INIT ! r)))
                   (\<lambda>r. unat (wiWheelIndex (INIT ! r)))
                   (\<lambda>r. unat (wheelOffsets SIZE ! r))
                   (unat (wfStop eng)) (unat prime) (unat segmentLow) of
              None \<Rightarrow> Inr st
            | Some (multipleIndex, wheelIndex) \<Rightarrow>
                Inr (sink prime (of_nat multipleIndex) (of_nat wheelIndex) st))"
proof -
  define P where "P = unat prime"
  define S where "S = unat segmentLow"
  define STOP where "STOP = unat (wfStop eng)"
  define q0 where "q0 = (S + 6) div P + 1"
  define m0 where "m0 = P * q0"
  define q1 where "q1 = (if m0 < P * P then P else q0)"
  define m1 where "m1 = (if m0 < P * P then P * P else m0)"
  define e where "e = INIT ! (q1 mod unat MODULO)"
  define m2 where "m2 = m1 + P * unat (wiNextMultipleFactor e)"
  let ?spec = "admit_spec (unat MODULO)
                   (\<lambda>r. unat (wiNextMultipleFactor (INIT ! r)))
                   (\<lambda>r. unat (wiWheelIndex (INIT ! r)))
                   (\<lambda>r. unat (wheelOffsets SIZE ! r)) STOP P S"
  have spec: "?spec = (if m0 > STOP then None
                       else if m2 > STOP then None
                       else Some ((m2 - S - 6) div 30,
                              unat (wheelOffsets SIZE ! (P mod 30)) + unat (wiWheelIndex e)))"
    by (simp add: admit_spec_def Let_def q0_def m0_def q1_def m1_def e_def m2_def)
  note code = add_eq [OF assms(1,2,3), of SIZE eng sink segmentLow st]
  have e1: "unat segmentLow + 6 < 2 ^ 64"
    and e2: "unat ((segmentLow + 6) div ucast prime) + 1 < 2 ^ 64"
    and e3: "unat prime * unat (add_quotient0 prime segmentLow) < 2 ^ 64"
    using assms(4) by (simp_all add: add_exact_def)
  have uq0: "unat (add_quotient0 prime segmentLow) = q0"
    unfolding q0_def S_def P_def by (rule unat_add_quotient0 [OF e1 e2])
  have um0: "unat (add_multiple0 prime segmentLow) = m0"
    unfolding m0_def q0_def S_def P_def by (rule unat_add_multiple0 [OF e1 e2 e3])
  have um1: "unat (add_multiple1 prime segmentLow) = m1"
    unfolding m1_def P_def by (rule add_square_values(1) [OF um0 uq0])
  have ue: "add_entry MODULO INIT prime segmentLow = e"
    unfolding e_def q1_def P_def by (rule add_square_values(3) [OF um0 uq0])
  have first: "wfStop eng < add_multiple0 prime segmentLow \<longleftrightarrow> STOP < m0"
    by (simp add: word_less_nat_alt um0 STOP_def)
  show ?thesis
  proof (cases "STOP < m0")
    case True
    then have "add_retires MODULO INIT eng prime segmentLow"
      using first by (simp add: add_retires_def)
    then show ?thesis
      unfolding code using True by (simp add: spec flip: P_def S_def STOP_def)
  next
    case False
    then have "\<not> wfStop eng < add_multiple0 prime segmentLow"
      using first by simp
    then have sum: "unat (add_multiple1 prime segmentLow)
                    + unat prime * unat (wiNextMultipleFactor
                        (add_entry MODULO INIT prime segmentLow)) < 2 ^ 64"
      and last: "wfStop eng < add_multiple2 MODULO INIT prime segmentLow
                 \<or> unat (segmentLow + 6) \<le> unat (add_multiple2 MODULO INIT prime segmentLow)"
      using assms(4) by (simp_all add: add_exact_def)
    have um2: "unat (add_multiple2 MODULO INIT prime segmentLow) = m2"
      unfolding m2_def P_def using unat_add_multiple2 [OF sum] by (simp only: um1 ue)
    have second: "wfStop eng < add_multiple2 MODULO INIT prime segmentLow \<longleftrightarrow> STOP < m2"
      by (simp add: word_less_nat_alt um2 STOP_def)
    show ?thesis
    proof (cases "STOP < m2")
      case True
      then have "add_retires MODULO INIT eng prime segmentLow"
        using second by (simp add: add_retires_def)
      then show ?thesis
        unfolding code using True False by (simp add: spec flip: P_def S_def STOP_def)
    next
      case stored: False
      then have nr: "\<not> add_retires MODULO INIT eng prime segmentLow"
        using False first second by (simp add: add_retires_def)
      have "unat (segmentLow + 6) \<le> unat (add_multiple2 MODULO INIT prime segmentLow)"
        using last stored second by simp
      then have mi: "add_multipleIndex MODULO INIT prime segmentLow
                     = of_nat ((m2 - S - 6) div 30)"
        unfolding S_def using unat_add_multipleIndex [OF e1] by (simp only: um2)
      have wi: "add_wheelIndex MODULO SIZE INIT prime segmentLow
                = of_nat (unat (wheelOffsets SIZE ! (P mod 30)) + unat (wiWheelIndex e))"
        unfolding add_wheelIndex_def ue wheelIndex_as_of_nat P_def unat_mod30 ..
      show ?thesis
        unfolding code using nr stored False
        by (simp add: spec mi wi flip: P_def S_def STOP_def)
    qed
  qed
qed

lemma add_program_points:
  "add_quotient0 prime segmentLow = (segmentLow + 6) div ucast prime + 1"
  "add_multiple0 prime segmentLow = ucast prime * add_quotient0 prime segmentLow"
  "add_multiple1 prime segmentLow
   = (if add_multiple0 prime segmentLow < ucast prime * ucast prime
      then ucast prime * ucast prime else add_multiple0 prime segmentLow)"
  "add_quotient1 prime segmentLow
   = (if add_multiple0 prime segmentLow < ucast prime * ucast prime
      then ucast prime else add_quotient0 prime segmentLow)"
  "add_multiple2 MODULO INIT prime segmentLow
   = add_multiple1 prime segmentLow
     + ucast prime * ucast (wiNextMultipleFactor
         (INIT ! unat (add_quotient1 prime segmentLow mod ucast MODULO)))"
  "add_multipleIndex MODULO INIT prime segmentLow
   = ucast ((add_multiple2 MODULO INIT prime segmentLow - segmentLow - 6) div 30)"
  "add_wheelIndex MODULO SIZE INIT prime segmentLow
   = wheelOffsets SIZE ! unat (prime mod 30)
     + ucast (wiWheelIndex (INIT ! unat (add_quotient1 prime segmentLow mod ucast MODULO)))"
  by (simp_all add: add_quotient0_def add_multiple0_def add_multiple1_def add_quotient1_def
      add_multiple2_def add_multipleIndex_def add_wheelIndex_def add_entry_def isquare_def
      diff_diff_eq)

lemma unat_of_nat32: "unat (of_nat n :: uint_t) = n mod 2 ^ 32"
  by (simp add: unat_of_nat)

lemma wheelOffsets_bases:
  "wheelOffsets SIZE ! 7 = 0 * SIZE" "wheelOffsets SIZE ! 11 = 1 * SIZE"
  "wheelOffsets SIZE ! 13 = 2 * SIZE" "wheelOffsets SIZE ! 17 = 3 * SIZE"
  "wheelOffsets SIZE ! 19 = 4 * SIZE" "wheelOffsets SIZE ! 23 = 5 * SIZE"
  "wheelOffsets SIZE ! 29 = 6 * SIZE" "wheelOffsets SIZE ! 1 = 7 * SIZE"
  by (simp_all add: wheelOffsets_def)

lemma add_exact_indexes:
  assumes "prime \<noteq> 0" and "MODULO \<noteq> 0" and "unat MODULO \<le> length INIT"
    and "add_exact MODULO INIT eng prime segmentLow"
    and "admit_spec (unat MODULO)
           (\<lambda>r. unat (wiNextMultipleFactor (INIT ! r)))
           (\<lambda>r. unat (wiWheelIndex (INIT ! r)))
           (\<lambda>r. unat (wheelOffsets SIZE ! r))
           (unat (wfStop eng)) (unat prime) (unat segmentLow) = Some (mi, wi)"
  shows "\<not> add_retires MODULO INIT eng prime segmentLow"
    and "add_multipleIndex MODULO INIT prime segmentLow = of_nat mi"
    and "add_wheelIndex MODULO SIZE INIT prime segmentLow = of_nat wi"
proof -
  have spec: "add MODULO SIZE INIT eng record_call prime segmentLow []
              = Inr [(prime, of_nat mi, of_nat wi)]"
    unfolding add_refines_admit_spec [OF assms(1,2,3,4)] assms(5)
    by (simp add: record_call_def)
  have code: "add MODULO SIZE INIT eng record_call prime segmentLow []
              = (if add_retires MODULO INIT eng prime segmentLow then Inr []
                 else Inr [(prime, add_multipleIndex MODULO INIT prime segmentLow,
                            add_wheelIndex MODULO SIZE INIT prime segmentLow)])"
    by (simp add: add_eq [OF assms(1,2,3)] record_call_def)
  show "\<not> add_retires MODULO INIT eng prime segmentLow"
    using spec code by (auto split: if_splits)
  show "add_multipleIndex MODULO INIT prime segmentLow = of_nat mi"
    using spec code by (auto split: if_splits)
  show "add_wheelIndex MODULO SIZE INIT prime segmentLow = of_nat wi"
    using spec code by (auto split: if_splits)
qed

lemma admit_spec_maxprime:
  "admit_spec (unat (30 :: uint_t))
     (\<lambda>r. unat (wiNextMultipleFactor (wheel30Init ! r)))
     (\<lambda>r. unat (wiWheelIndex (wheel30Init ! r)))
     (\<lambda>r. unat (wheelOffsets 8 ! r))
     (unat (wfStop \<lparr>wfStop = 18446744047939747845\<rparr>)) (unat (4294967291 :: uint_t))
     (unat (0 :: uint64_t))
   = Some (614891467691995955, 10)"
  by (simp add: admit_spec_def Let_def wheel30Init_11 wheelOffsets_11)

text \<open>
  C6, as the claim words it, fails. With the modulo 30 wheel and \<open>stop_ = getMaxStop()\<close>
  for the factor 6, \<open>add(4294967291, 0)\<close> raises \<open>multiple\<close> to the square of the prime,
  without wrap-around, and the table adds nothing. The quotient
  \<open>(multiple - segmentLow - 6) / 30\<close> is \<open>614891467691995955\<close>, but the \<open>multipleIndex\<close>
  handed to the sink is \<open>858993459\<close>: the quotient has been cast to the 32 bits of
  \<open>uint_t\<close>.
\<close>

theorem add_multipleIndex_counterexample:
  "add 30 8 wheel30Init \<lparr>wfStop = 18446744047939747845\<rparr> record_call 4294967291 0 []
   = Inr [(4294967291, 858993459, 10)]
   \<and> unat (add_multiple2 30 wheel30Init 4294967291 0) = 4294967291 * 4294967291
   \<and> (4294967291 * 4294967291 - 0 - 6) div 30 = (614891467691995955 :: nat)
   \<and> unat (858993459 :: uint_t) \<noteq> 614891467691995955"
proof -
  have "add 30 8 wheel30Init \<lparr>wfStop = 18446744047939747845\<rparr> record_call 4294967291 0 []
        = Inr [(4294967291, 858993459, 10)]"
    by (simp add: add_def Let_def isquare_def wheel30Init_eq wheelOffsets_def record_call_def)
  moreover have "unat (add_multiple2 30 wheel30Init 4294967291 0) = 4294967291 * 4294967291"
    by (simp add: add_maxprime_multiple2)
  moreover have "(4294967291 * 4294967291 - 0 - 6) div 30 = (614891467691995955 :: nat)"
    by simp
  moreover have "unat (858993459 :: uint_t) \<noteq> 614891467691995955"
    by simp
  ultimately show ?thesis
    by blast
qed

text \<open>
  C6, amended. When \<open>add\<close> stores a record for \<open>prime\<close> and \<open>segmentLow\<close>, with
  \<open>quotient = (segmentLow + 6) / prime + 1\<close> and \<open>multiple = prime * quotient\<close>: if
  \<open>multiple < prime^2\<close> then \<open>multiple\<close> is raised to \<open>prime^2\<close> and \<open>quotient\<close> is reset to
  \<open>prime\<close>; \<open>multiple\<close> is advanced by \<open>prime * INIT[quotient mod MODULO].nextMultipleFactor\<close>;
  and the sink receives \<open>multipleIndex = (multiple - segmentLow - 6) / 30\<close> cast to
  \<open>uint_t\<close>, that is modulo \<open>2^32\<close>, and
  \<open>wheelIndex = wheelOffsets_[prime mod 30] + INIT[quotient mod MODULO].wheelIndex\<close>, where
  \<open>wheelOffsets_\<close> maps the residues 7, 11, 13, 17, 19, 23, 29 and 1 to the bases
  \<open>0 * SIZE\<close> to \<open>7 * SIZE\<close>. These are the values in the types of the code. Whenever no
  64-bit operation wraps around, they are the numbers of steps 1 to 5 of the
  specification over the natural numbers: \<open>add\<close> retires the prime where the steps do,
  and otherwise the two indexes it hands over are those of the steps modulo \<open>2^32\<close>.
\<close>

theorem add_stored_values:
  assumes "prime \<noteq> 0" and "MODULO \<noteq> 0" and "unat MODULO \<le> length INIT"
  shows "(\<not> add_retires MODULO INIT eng prime segmentLow \<longrightarrow>
            add MODULO SIZE INIT eng sink prime segmentLow st
            = Inr (sink prime (add_multipleIndex MODULO INIT prime segmentLow)
                     (add_wheelIndex MODULO SIZE INIT prime segmentLow) st))
         \<and> add_quotient0 prime segmentLow = (segmentLow + 6) div ucast prime + 1
         \<and> add_multiple0 prime segmentLow = ucast prime * add_quotient0 prime segmentLow
         \<and> add_multiple1 prime segmentLow
             = (if add_multiple0 prime segmentLow < ucast prime * ucast prime
                then ucast prime * ucast prime else add_multiple0 prime segmentLow)
         \<and> add_quotient1 prime segmentLow
             = (if add_multiple0 prime segmentLow < ucast prime * ucast prime
                then ucast prime else add_quotient0 prime segmentLow)
         \<and> add_multiple2 MODULO INIT prime segmentLow
             = add_multiple1 prime segmentLow
               + ucast prime * ucast (wiNextMultipleFactor
                   (INIT ! unat (add_quotient1 prime segmentLow mod ucast MODULO)))
         \<and> add_multipleIndex MODULO INIT prime segmentLow
             = ucast ((add_multiple2 MODULO INIT prime segmentLow - segmentLow - 6) div 30)
         \<and> add_wheelIndex MODULO SIZE INIT prime segmentLow
             = wheelOffsets SIZE ! unat (prime mod 30)
               + ucast (wiWheelIndex
                   (INIT ! unat (add_quotient1 prime segmentLow mod ucast MODULO)))
         \<and> wheelOffsets SIZE ! 7 = 0 * SIZE \<and> wheelOffsets SIZE ! 11 = 1 * SIZE
         \<and> wheelOffsets SIZE ! 13 = 2 * SIZE \<and> wheelOffsets SIZE ! 17 = 3 * SIZE
         \<and> wheelOffsets SIZE ! 19 = 4 * SIZE \<and> wheelOffsets SIZE ! 23 = 5 * SIZE
         \<and> wheelOffsets SIZE ! 29 = 6 * SIZE \<and> wheelOffsets SIZE ! 1 = 7 * SIZE
         \<and> (add_exact MODULO INIT eng prime segmentLow \<longrightarrow>
               add MODULO SIZE INIT eng sink prime segmentLow st
               = (case admit_spec (unat MODULO)
                         (\<lambda>r. unat (wiNextMultipleFactor (INIT ! r)))
                         (\<lambda>r. unat (wiWheelIndex (INIT ! r)))
                         (\<lambda>r. unat (wheelOffsets SIZE ! r))
                         (unat (wfStop eng)) (unat prime) (unat segmentLow) of
                    None \<Rightarrow> Inr st
                  | Some (multipleIndex, wheelIndex) \<Rightarrow>
                      Inr (sink prime (of_nat multipleIndex) (of_nat wheelIndex) st)))
         \<and> (add_exact MODULO INIT eng prime segmentLow \<longrightarrow>
               (\<forall>multipleIndex wheelIndex.
                  admit_spec (unat MODULO)
                    (\<lambda>r. unat (wiNextMultipleFactor (INIT ! r)))
                    (\<lambda>r. unat (wiWheelIndex (INIT ! r)))
                    (\<lambda>r. unat (wheelOffsets SIZE ! r))
                    (unat (wfStop eng)) (unat prime) (unat segmentLow)
                  = Some (multipleIndex, wheelIndex) \<longrightarrow>
                  \<not> add_retires MODULO INIT eng prime segmentLow
                  \<and> unat (add_multipleIndex MODULO INIT prime segmentLow)
                      = multipleIndex mod 2 ^ 32
                  \<and> unat (add_wheelIndex MODULO SIZE INIT prime segmentLow)
                      = wheelIndex mod 2 ^ 32))"
proof (intro conjI impI allI)
  assume "\<not> add_retires MODULO INIT eng prime segmentLow"
  then show "add MODULO SIZE INIT eng sink prime segmentLow st
             = Inr (sink prime (add_multipleIndex MODULO INIT prime segmentLow)
                      (add_wheelIndex MODULO SIZE INIT prime segmentLow) st)"
    by (simp add: add_eq [OF assms])
next
  assume "add_exact MODULO INIT eng prime segmentLow"
  then show "add MODULO SIZE INIT eng sink prime segmentLow st
             = (case admit_spec (unat MODULO)
                       (\<lambda>r. unat (wiNextMultipleFactor (INIT ! r)))
                       (\<lambda>r. unat (wiWheelIndex (INIT ! r)))
                       (\<lambda>r. unat (wheelOffsets SIZE ! r))
                       (unat (wfStop eng)) (unat prime) (unat segmentLow) of
                  None \<Rightarrow> Inr st
                | Some (multipleIndex, wheelIndex) \<Rightarrow>
                    Inr (sink prime (of_nat multipleIndex) (of_nat wheelIndex) st))"
    by (rule add_refines_admit_spec [OF assms])
next
  fix multipleIndex wheelIndex
  assume ex: "add_exact MODULO INIT eng prime segmentLow"
    and sp: "admit_spec (unat MODULO)
               (\<lambda>r. unat (wiNextMultipleFactor (INIT ! r)))
               (\<lambda>r. unat (wiWheelIndex (INIT ! r)))
               (\<lambda>r. unat (wheelOffsets SIZE ! r))
               (unat (wfStop eng)) (unat prime) (unat segmentLow)
             = Some (multipleIndex, wheelIndex)"
  note i = add_exact_indexes [OF assms ex sp]
  show "\<not> add_retires MODULO INIT eng prime segmentLow"
    by (rule i(1))
  show "unat (add_multipleIndex MODULO INIT prime segmentLow) = multipleIndex mod 2 ^ 32"
    unfolding i(2) by (rule unat_of_nat32)
  show "unat (add_wheelIndex MODULO SIZE INIT prime segmentLow) = wheelIndex mod 2 ^ 32"
    unfolding i(3) by (rule unat_of_nat32)
qed (rule add_program_points wheelOffsets_bases)+


text \<open>
  The witness admits two primes of the spoke group with the base \<open>1 * SIZE = 8\<close>. The
  prime 11 at \<open>segmentLow = 1000\<close> is beyond its square: \<open>multiple\<close> goes from
  \<open>1012 = 11 * 92\<close> to \<open>1067 = 11 * 97\<close> and the sink receives
  \<open>multipleIndex = (1067 - 1006) / 30 = 2\<close> and \<open>wheelIndex = 8 + 1\<close>. The largest prime
  below \<open>2^32\<close> at \<open>segmentLow = 0\<close> is raised to its square, and the sink receives the
  quotient modulo \<open>2^32\<close> and \<open>wheelIndex = 8 + 2\<close>.
\<close>

theorem add_stored_values_witness:
  "(11 :: uint_t) \<noteq> 0 \<and> (4294967291 :: uint_t) \<noteq> 0 \<and> (30 :: uint_t) \<noteq> 0
   \<and> unat (30 :: uint_t) \<le> length wheel30Init
   \<and> \<not> add_retires 30 wheel30Init \<lparr>wfStop = 18446744047939747845\<rparr> 11 1000
   \<and> add_exact 30 wheel30Init \<lparr>wfStop = 18446744047939747845\<rparr> 11 1000
   \<and> add 30 8 wheel30Init \<lparr>wfStop = 18446744047939747845\<rparr> record_call 11 1000 []
       = Inr [(11, 2, 9)]
   \<and> wheelOffsets 8 ! 11 = 1 * 8
   \<and> add_exact 30 wheel30Init \<lparr>wfStop = 18446744047939747845\<rparr> 4294967291 0
   \<and> add 30 8 wheel30Init \<lparr>wfStop = 18446744047939747845\<rparr> record_call 4294967291 0 []
       = Inr [(4294967291, 858993459, 10)]
   \<and> unat (add_multipleIndex 30 wheel30Init 4294967291 0)
       = 614891467691995955 mod 2 ^ 32"
proof -
  let ?E = "\<lparr>wfStop = 18446744047939747845\<rparr>"
  have a: "(11 :: uint_t) \<noteq> 0" and a': "(4294967291 :: uint_t) \<noteq> 0"
    and b: "(30 :: uint_t) \<noteq> 0" and c: "unat (30 :: uint_t) \<le> length wheel30Init"
    by (simp_all add: length_wheel30Init)
  note t = add_stored_values [OF a b c, where eng = ?E and segmentLow = 1000
      and SIZE = 8 and sink = record_call and st = "[]"]
  note t' = add_stored_values [OF a' b c, where eng = ?E and segmentLow = 0
      and SIZE = 8 and sink = record_call and st = "[]"]
  have "add 30 8 wheel30Init ?E record_call 11 1000 []
        = Inr (record_call 11 (add_multipleIndex 30 wheel30Init 11 1000)
                 (add_wheelIndex 30 8 wheel30Init 11 1000) [])"
    using t add_11_1000_stored by blast
  then have r: "add 30 8 wheel30Init ?E record_call 11 1000 [] = Inr [(11, 2, 9)]"
    by (simp add: add_11_1000_indexes record_call_def)
  have w: "wheelOffsets 8 ! 11 = 1 * 8"
    using t by blast
  have "add 30 8 wheel30Init ?E record_call 4294967291 0 []
        = (case admit_spec (unat (30 :: uint_t))
                  (\<lambda>r. unat (wiNextMultipleFactor (wheel30Init ! r)))
                  (\<lambda>r. unat (wiWheelIndex (wheel30Init ! r)))
                  (\<lambda>r. unat (wheelOffsets 8 ! r))
                  (unat (wfStop ?E)) (unat (4294967291 :: uint_t)) (unat (0 :: uint64_t)) of
             None \<Rightarrow> Inr []
           | Some (multipleIndex, wheelIndex) \<Rightarrow>
               Inr (record_call 4294967291 (of_nat multipleIndex) (of_nat wheelIndex) []))"
    using t' add_maxprime_exact by blast
  then have r': "add 30 8 wheel30Init ?E record_call 4294967291 0 []
                 = Inr [(4294967291, 858993459, 10)]"
    unfolding admit_spec_maxprime by (simp add: record_call_def)
  have m: "unat (add_multipleIndex 30 wheel30Init 4294967291 0)
           = 614891467691995955 mod 2 ^ 32"
    using t' add_maxprime_exact admit_spec_maxprime by blast
  show ?thesis
    using a a' b c add_11_1000_stored add_11_1000_exact r w add_maxprime_exact r' m
    by blast
qed


end
